theory Spec2Isabelle
  imports Complex_Main
begin

section \<open>Circuit breaker (common/utils/circuit-breaker.ts)\<close>

text \<open>
  JavaScript numbers that hold counters, thresholds and millisecond timestamps are modelled
  as \<open>int\<close>.  A thrown value is an element of \<open>error\<close>: either the breaker's own
  \<open>CircuitBreakerOpenError\<close> (carrying the breaker name and the retry time its message is
  built from) or any other thrown value, of which only the \<open>status\<close> property (when it is
  a number) and the message are kept.
\<close>

datatype CircuitState = CLOSED | OPEN | HALF_OPEN

record CircuitBreakerOptions =
  name :: string
  failureThreshold :: int
  successThreshold :: int
  timeout :: int
  resetTimeout :: int

record CircuitBreaker =
  options :: CircuitBreakerOptions
  state :: CircuitState
  failureCount :: int
  successCount :: int
  lastFailureTime :: int
  nextRetryTime :: int

datatype error =
    CircuitBreakerOpenError string int
  | Error "int option" string

text \<open>The field initialisers and the constructor of class \<open>CircuitBreaker\<close>.\<close>

definition new_CircuitBreaker :: "CircuitBreakerOptions \<Rightarrow> CircuitBreaker" where
  "new_CircuitBreaker opts =
     \<lparr>options = opts, state = CLOSED, failureCount = 0, successCount = 0,
      lastFailureTime = 0, nextRetryTime = 0\<rparr>"

text \<open>
  \<open>new Date(t).toISOString()\<close> throws \<open>RangeError: Invalid time value\<close> when \<open>t\<close> is
  not a time value, that is when it lies more than 8.64e15 milliseconds from the epoch.  A
  \<open>RangeError\<close> is an error without a \<open>status\<close> property.
\<close>

definition valid_time :: "int \<Rightarrow> bool" where
  "valid_time t \<longleftrightarrow> - 8640000000000000 \<le> t \<and> t \<le> 8640000000000000"

definition RangeError :: error where
  "RangeError = Error None ''Invalid time value''"

text \<open>
  \<open>transitionTo\<close>, \<open>onSuccess\<close>, \<open>onFailure\<close> and \<open>reset\<close> mutate the breaker.  Here
  each returns what it throws, if anything, and the breaker as it leaves it.  Their first
  argument is the value \<open>Date.now()\<close> has when they run.  What is written to the log is
  not modelled, but building the log line of the OPEN branch calls \<open>toISOString\<close> on
  the retry time just stored, and that can throw.
\<close>

definition transitionTo ::
  "int \<Rightarrow> CircuitState \<Rightarrow> CircuitBreaker \<Rightarrow> error option \<times> CircuitBreaker" where
  "transitionTo now newState b =
     (let b = b\<lparr>state := newState\<rparr> in
      case newState of
        OPEN \<Rightarrow>
          (let b = b\<lparr>nextRetryTime := now + resetTimeout (options b)\<rparr> in
           if valid_time (nextRetryTime b) then (None, b) else (Some RangeError, b))
      | HALF_OPEN \<Rightarrow> (None, b\<lparr>successCount := 0\<rparr>)
      | CLOSED \<Rightarrow> (None, b\<lparr>failureCount := 0, successCount := 0\<rparr>))"

definition onSuccess :: "int \<Rightarrow> CircuitBreaker \<Rightarrow> error option \<times> CircuitBreaker" where
  "onSuccess now b =
     (let b = b\<lparr>failureCount := 0\<rparr> in
      if state b = HALF_OPEN then
        (let b = b\<lparr>successCount := successCount b + 1\<rparr> in
         if successCount b \<ge> successThreshold (options b)
         then transitionTo now CLOSED b else (None, b))
      else (None, b))"

definition onFailure :: "int \<Rightarrow> CircuitBreaker \<Rightarrow> error option \<times> CircuitBreaker" where
  "onFailure now b =
     (let b = b\<lparr>failureCount := failureCount b + 1, lastFailureTime := now,
                successCount := 0\<rparr> in
      if state b = HALF_OPEN then transitionTo now OPEN b
      else if state b = CLOSED \<and> failureCount b \<ge> failureThreshold (options b)
      then transitionTo now OPEN b
      else (None, b))"

text \<open>
  \<open>execute\<close>.  The awaited operation is a computation on an outside world \<open>'w\<close>: run in
  a world it gives back what it resolved to (\<open>Inr\<close>) or threw (\<open>Inl\<close>) and the world it
  left behind.  \<open>Date_now\<close> reads the clock of a world.  The result of \<open>execute\<close> is what
  the call returns or throws, the breaker afterwards and the world afterwards; the world
  changes only by running the operation, and calls on one breaker do not overlap.

  \<open>catch_block\<close> is the \<open>catch\<close> clause of \<open>execute\<close>: it runs \<open>onFailure\<close> and throws
  the error caught, unless \<open>onFailure\<close> has thrown itself.  \<open>try_operation\<close> is the
  \<open>try\<close> statement: whatever the operation or \<open>onSuccess\<close> throws is caught.  In the
  OPEN branch the message of the \<open>CircuitBreakerOpenError\<close> is built with
  \<open>toISOString\<close> before the error is constructed.
\<close>

definition catch_block ::
  "('w \<Rightarrow> int) \<Rightarrow> error \<Rightarrow> CircuitBreaker \<Rightarrow> 'w \<Rightarrow> (error + 'a) \<times> CircuitBreaker \<times> 'w" where
  "catch_block Date_now err b w =
     (case onFailure (Date_now w) b of
        (Some thrown, b') \<Rightarrow> (Inl thrown, b', w)
      | (None, b') \<Rightarrow> (Inl err, b', w))"

definition try_operation ::
  "('w \<Rightarrow> int) \<Rightarrow> ('w \<Rightarrow> (error + 'a) \<times> 'w) \<Rightarrow> CircuitBreaker \<Rightarrow> 'w
     \<Rightarrow> (error + 'a) \<times> CircuitBreaker \<times> 'w" where
  "try_operation Date_now operation b w =
     (case operation w of
        (Inr result, w') \<Rightarrow>
          (case onSuccess (Date_now w') b of
             (Some thrown, b') \<Rightarrow> catch_block Date_now thrown b' w'
           | (None, b') \<Rightarrow> (Inr result, b', w'))
      | (Inl err, w') \<Rightarrow> catch_block Date_now err b w')"

definition execute ::
  "('w \<Rightarrow> int) \<Rightarrow> ('w \<Rightarrow> (error + 'a) \<times> 'w) \<Rightarrow> CircuitBreaker \<Rightarrow> 'w
     \<Rightarrow> (error + 'a) \<times> CircuitBreaker \<times> 'w" where
  "execute Date_now operation b w =
     (if state b = OPEN then
        (if Date_now w \<ge> nextRetryTime b
         then (case transitionTo (Date_now w) HALF_OPEN b of
                 (Some thrown, b') \<Rightarrow> (Inl thrown, b', w)
               | (None, b') \<Rightarrow> try_operation Date_now operation b' w)
         else if valid_time (nextRetryTime b)
         then (Inl (CircuitBreakerOpenError (name (options b)) (nextRetryTime b)), b, w)
         else (Inl RangeError, b, w))
      else try_operation Date_now operation b w)"

text \<open>\<open>reset\<close>: the manual reset of a breaker.\<close>

definition reset :: "int \<Rightarrow> CircuitBreaker \<Rightarrow> error option \<times> CircuitBreaker" where
  "reset now b = transitionTo now CLOSED (b\<lparr>failureCount := 0, successCount := 0\<rparr>)"

text \<open>
  A series of calls on one breaker, each call with its own operation and the world it is
  made in; only the breaker is carried from one call to the next.
\<close>

fun executes ::
  "('w \<Rightarrow> int) \<Rightarrow> (('w \<Rightarrow> (error + 'a) \<times> 'w) \<times> 'w) list \<Rightarrow> CircuitBreaker
     \<Rightarrow> CircuitBreaker" where
  "executes Date_now [] b = b"
| "executes Date_now (c # cs) b =
     executes Date_now cs (fst (snd (execute Date_now (fst c) b (snd c))))"

definition fails :: "('w \<Rightarrow> (error + 'a) \<times> 'w) \<times> 'w \<Rightarrow> bool" where
  "fails c = isl (fst ((fst c) (snd c)))"

definition succeeds :: "('w \<Rightarrow> (error + 'a) \<times> 'w) \<times> 'w \<Rightarrow> bool" where
  "succeeds c = (\<not> isl (fst ((fst c) (snd c))))"

text \<open>The clock reading when the operation of a call has settled.\<close>

definition settled_at :: "('w \<Rightarrow> int) \<Rightarrow> ('w \<Rightarrow> (error + 'a) \<times> 'w) \<times> 'w \<Rightarrow> int" where
  "settled_at Date_now c = Date_now (snd ((fst c) (snd c)))"


section \<open>Circuit breaker factory\<close>

text \<open>
  \<open>Partial<CircuitBreakerOptions>\<close>: every property may be missing.  The argument
  \<open>options?\<close> of \<open>getOrCreate\<close> may itself be missing, which is \<open>None\<close>.
\<close>

record PartialCircuitBreakerOptions =
  name_p :: "string option"
  failureThreshold_p :: "int option"
  successThreshold_p :: "int option"
  timeout_p :: "int option"
  resetTimeout_p :: "int option"

text \<open>\<open>options?.prop ?? d\<close>\<close>

definition nullish :: "'o option \<Rightarrow> ('o \<Rightarrow> 'v option) \<Rightarrow> 'v \<Rightarrow> 'v" where
  "nullish opts prop d =
     (case opts of None \<Rightarrow> d | Some p \<Rightarrow> (case prop p of None \<Rightarrow> d | Some v \<Rightarrow> v))"

text \<open>\<open>Map.prototype.set\<close>: a new key is added at the end, an old one keeps its place.\<close>

fun Map_set :: "('k \<times> 'v) list \<Rightarrow> 'k \<Rightarrow> 'v \<Rightarrow> ('k \<times> 'v) list" where
  "Map_set [] k v = [(k, v)]"
| "Map_set ((k', v') # m) k v = (if k' = k then (k, v) # m else (k', v') # Map_set m k v)"

text \<open>
  The static map \<open>breakers\<close> holds references to breaker objects.  A reference is an index
  into \<open>objects\<close>, the breaker objects created so far; \<open>new CircuitBreaker\<close> appends one.
  The map keeps its insertion order, as a JavaScript \<open>Map\<close> does.  \<open>getOrCreate\<close>
  creates and stores a breaker when the map has none for the name, and returns what the
  map then holds for the name.
\<close>

record CircuitBreakerFactory =
  breakers :: "(string \<times> nat) list"
  objects :: "CircuitBreaker list"

definition getOrCreate ::
  "string \<Rightarrow> PartialCircuitBreakerOptions option \<Rightarrow> CircuitBreakerFactory
     \<Rightarrow> nat \<times> CircuitBreakerFactory" where
  "getOrCreate n opts f =
     (case map_of (breakers f) n of
        None \<Rightarrow>
          (let fullOptions =
                 \<lparr>name = n,
                  failureThreshold = nullish opts failureThreshold_p 5,
                  successThreshold = nullish opts successThreshold_p 2,
                  timeout = nullish opts timeout_p 30000,
                  resetTimeout = nullish opts resetTimeout_p 60000\<rparr>;
               a = length (objects f)
           in (a, f\<lparr>breakers := Map_set (breakers f) n a,
                    objects := objects f @ [new_CircuitBreaker fullOptions]\<rparr>))
      | Some a \<Rightarrow> (a, f))"

text \<open>
  The static methods \<open>reset\<close> and \<open>resetAll\<close> call \<open>reset\<close> on the breakers the
  map holds; \<open>reset\<close> goes to CLOSED, a transition that throws nothing, so only the
  breaker it leaves is kept.
\<close>

definition CircuitBreakerFactory_reset ::
  "int \<Rightarrow> string \<Rightarrow> CircuitBreakerFactory \<Rightarrow> CircuitBreakerFactory" where
  "CircuitBreakerFactory_reset now n f =
     (case map_of (breakers f) n of
        None \<Rightarrow> f
      | Some a \<Rightarrow> f\<lparr>objects := (objects f)[a := snd (reset now (objects f ! a))]\<rparr>)"

definition resetAll :: "int \<Rightarrow> CircuitBreakerFactory \<Rightarrow> CircuitBreakerFactory" where
  "resetAll now f =
     f\<lparr>objects := foldl (\<lambda>os a. os[a := snd (reset now (os ! a))]) (objects f)
                    (map snd (breakers f))\<rparr>"

text \<open>
  What the rest of the program can do with the factory and its breakers: call one of the
  three static methods, or call \<open>execute\<close> on a breaker it holds a reference to.
\<close>

datatype ('a, 'w) factory_use =
    GetOrCreate string "PartialCircuitBreakerOptions option"
  | Reset string int
  | ResetAll int
  | Execute nat "'w \<Rightarrow> (error + 'a) \<times> 'w" 'w

fun use :: "('w \<Rightarrow> int) \<Rightarrow> CircuitBreakerFactory \<Rightarrow> ('a, 'w) factory_use \<Rightarrow> CircuitBreakerFactory"
  where
  "use Date_now f (GetOrCreate n opts) = snd (getOrCreate n opts f)"
| "use Date_now f (Reset n now) = CircuitBreakerFactory_reset now n f"
| "use Date_now f (ResetAll now) = resetAll now f"
| "use Date_now f (Execute a operation w) =
     (if a < length (objects f)
      then f\<lparr>objects := (objects f)[a := fst (snd (execute Date_now operation (objects f ! a) w))]\<rparr>
      else f)"

text \<open>
  \<open>registered f n a opts\<close>: the factory maps the name \<open>n\<close> to the reference \<open>a\<close>, and
  the breaker object behind \<open>a\<close> has the options \<open>opts\<close>.
\<close>

definition registered :: "CircuitBreakerFactory \<Rightarrow> string \<Rightarrow> nat \<Rightarrow> CircuitBreakerOptions \<Rightarrow> bool" where
  "registered f n a opts \<longleftrightarrow>
     map_of (breakers f) n = Some a \<and> a < length (objects f) \<and> options (objects f ! a) = opts"

section \<open>AI module types (modules/ai/types/ai.types.ts)\<close>

datatype AIProvider = OPENAI | ANTHROPIC | GEMINI | LOCAL

text \<open>The string values of the enum.\<close>

fun AIProvider_value :: "AIProvider \<Rightarrow> string" where
  "AIProvider_value OPENAI = ''openai''"
| "AIProvider_value ANTHROPIC = ''anthropic''"
| "AIProvider_value GEMINI = ''gemini''"
| "AIProvider_value LOCAL = ''local''"

datatype Role = System | User | Assistant

record ChatMessage =
  role :: Role
  content :: string

datatype ResponseFormat = Text | Json

text \<open>
  A missing optional property is \<open>None\<close>.  \<open>temperature\<close> and \<open>estimatedCost\<close> are
  only stored and compared, never computed with; they are taken as reals.
\<close>

record AICompletionRequest =
  messages :: "ChatMessage list"
  model :: "string option"
  maxTokens :: "int option"
  temperature :: "real option"
  stream :: "bool option"
  responseFormat :: "ResponseFormat option"

record TokenUsage =
  promptTokens :: int
  completionTokens :: int
  totalTokens :: int
  estimatedCost :: real

datatype FinishReason = Stop | Length | Content_filter | Failed

record AICompletionResponse =
  content :: string
  finishReason :: FinishReason
  usage :: TokenUsage
  model :: string
  cached :: "bool option"

definition MODEL_CONTEXT_LIMITS :: "(string \<times> int) list" where
  "MODEL_CONTEXT_LIMITS =
     [(''gpt-4o'', 128000),
      (''gpt-4o-mini'', 128000),
      (''gpt-4-turbo'', 128000),
      (''gpt-3.5-turbo'', 16385),
      (''claude-3-5-sonnet-20241022'', 200000),
      (''claude-3-5-haiku-20241022'', 200000),
      (''claude-3-opus-20240229'', 200000),
      (''gemini-1.5-pro'', 2000000),
      (''gemini-1.5-flash'', 1000000),
      (''gemini-1.5-flash-8b'', 1000000),
      (''gemini-2.0-flash-exp'', 1000000)]"

text \<open>
  \<open>MODEL_CONTEXT_LIMITS[model] ?? 16000\<close>.  The table is an object literal, so the
  lookup also finds the members every object inherits from \<open>Object.prototype\<close>.  These
  are functions or objects, not \<open>undefined\<close>, so \<open>??\<close> keeps them: for their names
  \<open>getContextLimit\<close> returns a value that is not a number, which is \<open>None\<close> here.
\<close>

definition Object_prototype_members :: "string list" where
  "Object_prototype_members =
     [''constructor'', ''__defineGetter__'', ''__defineSetter__'', ''hasOwnProperty'',
      ''__lookupGetter__'', ''__lookupSetter__'', ''isPrototypeOf'', ''propertyIsEnumerable'',
      ''toString'', ''valueOf'', ''__proto__'', ''toLocaleString'']"

definition getContextLimit :: "string \<Rightarrow> int option" where
  "getContextLimit m =
     (case map_of MODEL_CONTEXT_LIMITS m of
        Some l \<Rightarrow> Some l
      | None \<Rightarrow> if m \<in> set Object_prototype_members then None else Some 16000)"

section \<open>Provider adapters (modules/ai/providers/base.provider.ts)\<close>

text \<open>
  Of an adapter the service uses \<open>defaultModel\<close>, \<open>complete\<close>, \<open>countTokens\<close> and
  \<open>isAvailable\<close>.  \<open>complete\<close> talks to the vendor: it is a computation on the outside
  world, which resolves to a response or throws.  \<open>countTokens text model\<close> is a pure
  function (tiktoken for OpenAI, a quarter of the length rounded up for the others).
\<close>

record 'w BaseAIProvider =
  defaultModel :: string
  complete :: "AICompletionRequest \<Rightarrow> 'w \<Rightarrow> (error + AICompletionResponse) \<times> 'w"
  countTokens :: "string \<Rightarrow> string option \<Rightarrow> int"
  isAvailable :: bool

text \<open>\<open>Math.ceil(text.length / 4)\<close>, the estimate of the Anthropic and Gemini adapters.\<close>

definition quarter_length :: "string \<Rightarrow> string option \<Rightarrow> int" where
  "quarter_length text m = (int (length text) + 3) div 4"

section \<open>AI service (modules/ai/ai.service.ts)\<close>

record CacheEntry =
  response :: AICompletionResponse
  timestamp :: int

text \<open>
  The fields of an \<open>AIService\<close>.  \<open>providers\<close> is a \<open>Map\<close>: a list of entries in
  insertion order with distinct keys.  \<open>responseCache\<close> is a \<open>Map\<close> of which only
  \<open>get\<close> and \<open>set\<close> are used here.
\<close>

record 'w AIService =
  openaiProvider :: "'w BaseAIProvider"
  anthropicProvider :: "'w BaseAIProvider"
  geminiProvider :: "'w BaseAIProvider"
  providers :: "(AIProvider \<times> 'w BaseAIProvider) list"
  defaultProvider :: AIProvider
  responseCache :: "string \<Rightarrow> CacheEntry option"

text \<open>The field initialisers and the constructor.\<close>

definition new_AIService ::
  "'w BaseAIProvider \<Rightarrow> 'w BaseAIProvider \<Rightarrow> 'w BaseAIProvider \<Rightarrow> 'w AIService" where
  "new_AIService openai anthropic gemini =
     \<lparr>openaiProvider = openai, anthropicProvider = anthropic, geminiProvider = gemini,
      providers = [], defaultProvider = OPENAI, responseCache = (\<lambda>k. None)\<rparr>"

definition priorityOrder :: "AIProvider list" where
  "priorityOrder = [GEMINI, OPENAI, ANTHROPIC]"

text \<open>
  \<open>onModuleInit\<close>.  The loop over \<open>priorityOrder\<close> stops at the first provider that is
  registered; \<open>find\<close> returns that provider.  The timer that cleans the cache is not
  modelled.
\<close>

definition onModuleInit :: "('w, 'z) AIService_scheme \<Rightarrow> ('w, 'z) AIService_scheme" where
  "onModuleInit s =
     (let s = (if isAvailable (openaiProvider s)
               then s\<lparr>providers := Map_set (providers s) OPENAI (openaiProvider s)\<rparr> else s);
          s = (if isAvailable (anthropicProvider s)
               then s\<lparr>providers := Map_set (providers s) ANTHROPIC (anthropicProvider s)\<rparr> else s);
          s = (if isAvailable (geminiProvider s)
               then s\<lparr>providers := Map_set (providers s) GEMINI (geminiProvider s)\<rparr> else s)
      in if map_of (providers s) (defaultProvider s) = None then
           (case find (\<lambda>p. map_of (providers s) p \<noteq> None) priorityOrder of
              Some p \<Rightarrow> s\<lparr>defaultProvider := p\<rparr>
            | None \<Rightarrow> s)
         else s)"

text \<open>
  \<open>getProvider\<close>.  \<open>Array.from(this.providers.values())[0]\<close> is the value of the first
  entry of the map, \<open>undefined\<close> when the map is empty.
\<close>

definition getProvider ::
  "('w, 'z) AIService_scheme \<Rightarrow> AIProvider option \<Rightarrow> error + 'w BaseAIProvider" where
  "getProvider s preferred =
     (let providerKey = (case preferred of None \<Rightarrow> defaultProvider s | Some p \<Rightarrow> p) in
      case map_of (providers s) providerKey of
        None \<Rightarrow>
          (case map snd (providers s) of
             [] \<Rightarrow> Inl (Error None ''No AI provider available'')
           | available # _ \<Rightarrow> Inr available)
      | Some provider \<Rightarrow> Inr provider)"

text \<open>\<open>AIService.countTokens\<close>\<close>

definition AIService_countTokens ::
  "('w, 'z) AIService_scheme \<Rightarrow> string \<Rightarrow> AIProvider option \<Rightarrow> string option \<Rightarrow> error + int"
  where
  "AIService_countTokens s text provider m =
     (case getProvider s provider of
        Inl e \<Rightarrow> Inl e
      | Inr p \<Rightarrow> Inr (countTokens p text m))"

text \<open>
  The claim about provider resolution speaks of the highest-priority registered adapter
  in the order Gemini, OpenAI, Anthropic; this is that adapter, \<open>None\<close> when no adapter
  of the three is registered.
\<close>

definition highest_priority_available ::
  "('w, 'z) AIService_scheme \<Rightarrow> 'w BaseAIProvider option" where
  "highest_priority_available s =
     (case find (\<lambda>p. map_of (providers s) p \<noteq> None) [GEMINI, OPENAI, ANTHROPIC] of
        None \<Rightarrow> None
      | Some p \<Rightarrow> map_of (providers s) p)"

section \<open>Context builder: \<open>truncateToFit\<close> (ContextBuilderService)\<close>

text \<open>\<open>Array.prototype.join('\n')\<close> on strings.\<close>

fun join_lines :: "string list \<Rightarrow> string" where
  "join_lines [] = []"
| "join_lines [x] = x"
| "join_lines (x # y # ys) = x @ CHR 0x0A # join_lines (y # ys)"

text \<open>
  \<open>estimateTokens\<close> asks the service, which asks its default provider's adapter; the
  request throws when no adapter is registered.
\<close>

definition estimateTokens ::
  "('w, 'z) AIService_scheme \<Rightarrow> ChatMessage list \<Rightarrow> error + int" where
  "estimateTokens aiService msgs =
     (let text = join_lines (map ChatMessage.content msgs)
      in AIService_countTokens aiService text None None)"

text \<open>
  The budget \<open>contextLimit - reserveOutputTokens\<close> is \<open>NaN\<close>, here \<open>None\<close>, when
  \<open>contextLimit\<close> is not a number, and \<open>n <= NaN\<close> is false for every \<open>n\<close>.
\<close>

definition minus_number :: "int option \<Rightarrow> int \<Rightarrow> int option" where
  "minus_number a b = (case a of None \<Rightarrow> None | Some x \<Rightarrow> Some (x - b))"

definition lte :: "int \<Rightarrow> int option \<Rightarrow> bool" where
  "lte n b = (case b of None \<Rightarrow> False | Some m \<Rightarrow> n \<le> m)"

text \<open>
  The loop \<open>for (let i = middleMessages.length - 1; i >= 0; i--)\<close>.  The counter of
  \<open>add_from_end\<close> is \<open>i + 1\<close>: at \<open>Suc i\<close> the body runs for index \<open>i\<close>, at 0 the loop
  has ended.  \<open>truncated.splice(1, 0, m)\<close> puts \<open>m\<close> behind the first element; \<open>break\<close>
  leaves the loop with \<open>truncated\<close> as it is.
\<close>

fun add_from_end ::
  "('w, 'z) AIService_scheme \<Rightarrow> int option \<Rightarrow> ChatMessage \<Rightarrow> ChatMessage list \<Rightarrow> ChatMessage
     \<Rightarrow> nat \<Rightarrow> ChatMessage list \<Rightarrow> error + ChatMessage list" where
  "add_from_end aiService maxInputTokens systemMessage middleMessages lastMessage 0 truncated =
     Inr truncated"
| "add_from_end aiService maxInputTokens systemMessage middleMessages lastMessage (Suc i) truncated =
     (let testMessages =
            [systemMessage] @ drop 1 truncated @ [middleMessages ! i, lastMessage]
      in case estimateTokens aiService testMessages of
           Inl e \<Rightarrow> Inl e
         | Inr n \<Rightarrow>
             if lte n maxInputTokens
             then add_from_end aiService maxInputTokens systemMessage middleMessages lastMessage i
                    (take 1 truncated @ [middleMessages ! i] @ drop 1 truncated)
             else Inr truncated)"

text \<open>
  \<open>truncateToFit\<close>.  The argument is a well-typed \<open>ChatMessage[]\<close>.  An element of the
  returned array is \<open>Some\<close> message or \<open>None\<close> for \<open>undefined\<close>: with no message at
  all \<open>systemMessage\<close> is \<open>undefined\<close>, and with fewer than two messages \<open>rest\<close> is
  empty and \<open>rest[rest.length - 1]\<close> is \<open>undefined\<close>; the loop does not run then.
  A missing \<open>reserveOutputTokens\<close> is 4096.
\<close>

definition truncateToFit ::
  "('w, 'z) AIService_scheme \<Rightarrow> ChatMessage list \<Rightarrow> string \<Rightarrow> int option
     \<Rightarrow> error + ChatMessage option list" where
  "truncateToFit aiService msgs m reserveOutputTokens =
     (let contextLimit = getContextLimit m;
          maxInputTokens =
            minus_number contextLimit
              (case reserveOutputTokens of None \<Rightarrow> 4096 | Some r \<Rightarrow> r)
      in case estimateTokens aiService msgs of
           Inl e \<Rightarrow> Inl e
         | Inr currentTokens \<Rightarrow>
             if lte currentTokens maxInputTokens then Inr (map Some msgs)
             else
               (case msgs of
                  [] \<Rightarrow> Inr [None, None]
                | [systemMessage] \<Rightarrow> Inr [Some systemMessage, None]
                | systemMessage # rest \<Rightarrow>
                    (let lastMessage = last rest;
                         middleMessages = butlast rest
                     in case add_from_end aiService maxInputTokens systemMessage
                               middleMessages lastMessage (length middleMessages)
                               [systemMessage] of
                          Inl e \<Rightarrow> Inl e
                        | Inr truncated \<Rightarrow> Inr (map Some (truncated @ [lastMessage])))))"

text \<open>
  The estimate the loop compares with the budget when the \<open>j\<close> newest interior messages
  are already kept: that of the system message, the kept messages, the next older
  interior message and the final message, in the order the loop lists them.
\<close>

definition test_estimate ::
  "('w, 'z) AIService_scheme \<Rightarrow> ChatMessage \<Rightarrow> ChatMessage list \<Rightarrow> ChatMessage \<Rightarrow> nat
     \<Rightarrow> error + int" where
  "test_estimate aiService systemMessage middleMessages lastMessage j =
     estimateTokens aiService
       ([systemMessage] @ drop (length middleMessages - j) middleMessages
          @ [middleMessages ! (length middleMessages - j - 1), lastMessage])"

section \<open>\<open>AIService.complete\<close>\<close>

text \<open>
  What the service needs from its surroundings: \<open>clock\<close> is \<open>Date.now()\<close> read in a
  world; \<open>sleep ms\<close> is what the world becomes while the call waits; \<open>JSON_stringify\<close>
  serialises the object \<open>getCacheKey\<close> builds; \<open>usage_log\<close> is the body of the \<open>try\<close>
  block of \<open>trackUsage\<close>, which may throw, and \<open>logger_error\<close> the logging in its
  \<open>catch\<close> block.  Other logging is not modelled.
\<close>

record UsageRecord =
  projectId :: string
  userId :: "string option"
  model :: string
  promptTokens :: int
  completionTokens :: int
  cost :: real
  operation :: string

type_synonym cache_key_data =
  "ChatMessage list \<times> string option \<times> int option \<times> real option \<times> ResponseFormat option"

record 'w runtime =
  clock :: "'w \<Rightarrow> int"
  sleep :: "int \<Rightarrow> 'w \<Rightarrow> 'w"
  JSON_stringify :: "cache_key_data \<Rightarrow> string"
  usage_log :: "UsageRecord \<Rightarrow> 'w \<Rightarrow> (error + unit) \<times> 'w"
  logger_error :: "'w \<Rightarrow> 'w"

text \<open>The second argument of \<open>complete\<close>; a missing property, or a missing argument, is \<open>None\<close>.\<close>

record CompleteOptions =
  provider :: "AIProvider option"
  projectId :: "string option"
  userId :: "string option"
  operation :: "string option"
  useCache :: "bool option"
  maxRetries :: "int option"

text \<open>
  The trace is not part of the program: it lists, in order, each call of an adapter's
  \<open>complete\<close> and each \<open>sleep\<close> with its duration, and nothing reads it.
\<close>

datatype event = ProviderInvoked | Slept int

text \<open>
  The running program: the service's fields, the factory's static map with the breaker
  objects, the outside world, and the trace.
\<close>

record 'w program = "'w AIService" +
  factory :: CircuitBreakerFactory
  world :: 'w
  trace :: "event list"

definition CACHE_TTL_MS :: int where
  "CACHE_TTL_MS = 5 * 60 * 1000"

definition getCacheKey :: "'w runtime \<Rightarrow> AICompletionRequest \<Rightarrow> string" where
  "getCacheKey rt request =
     JSON_stringify rt
       (messages request, AICompletionRequest.model request, maxTokens request,
        temperature request, responseFormat request)"

fun instanceof_CircuitBreakerOpenError :: "error \<Rightarrow> bool" where
  "instanceof_CircuitBreakerOpenError (CircuitBreakerOpenError n t) = True"
| "instanceof_CircuitBreakerOpenError (Error st msg) = False"

fun isNonRetryableError :: "error \<Rightarrow> bool" where
  "isNonRetryableError (Error (Some st) msg) = (st \<in> set [400, 401, 403, 404])"
| "isNonRetryableError (Error None msg) = False"
| "isNonRetryableError (CircuitBreakerOpenError n t) = False"

definition trackUsage :: "'w runtime \<Rightarrow> UsageRecord \<Rightarrow> 'w \<Rightarrow> 'w" where
  "trackUsage rt usageRecord w =
     (case usage_log rt usageRecord w of
        (Inr u, w') \<Rightarrow> w'
      | (Inl err, w') \<Rightarrow> logger_error rt w')"

text \<open>The options object \<open>complete\<close> passes to \<open>getOrCreate\<close>.\<close>

definition ai_options :: PartialCircuitBreakerOptions where
  "ai_options = \<lparr>name_p = None, failureThreshold_p = Some 5, successThreshold_p = Some 2,
                 timeout_p = None, resetTimeout_p = Some 60000\<rparr>"

text \<open>
  Lines 105 to 113: the cached response a call is answered with, if any.
\<close>

definition cached_response ::
  "'w runtime \<Rightarrow> AICompletionRequest \<Rightarrow> bool \<Rightarrow> 'w program \<Rightarrow> AICompletionResponse option"
  where
  "cached_response rt request use_cache s =
     (if use_cache \<and> stream request \<noteq> Some True then
        (case responseCache s (getCacheKey rt request) of
           None \<Rightarrow> None
         | Some entry \<Rightarrow>
             if clock rt (world s) - timestamp entry < CACHE_TTL_MS
             then Some ((response entry)\<lparr>cached := Some True\<rparr>)
             else None)
      else None)"

text \<open>
  \<open>await circuitBreaker.execute(() => provider.complete(request))\<close>.  The breaker is
  the object behind the reference \<open>circuitBreaker\<close>; \<open>execute\<close> updates it in place.  The
  operation passed runs the adapter in the world, and the trace notes it.
\<close>

definition breaker_execute ::
  "'w runtime \<Rightarrow> 'w BaseAIProvider \<Rightarrow> AICompletionRequest \<Rightarrow> nat \<Rightarrow> 'w program
     \<Rightarrow> (error + AICompletionResponse) \<times> 'w program" where
  "breaker_execute rt adapter request circuitBreaker s =
     (case execute (\<lambda>(w, t). clock rt w)
             (\<lambda>(w, t). case complete adapter request w of
                          (r, w') \<Rightarrow> (r, (w', t @ [ProviderInvoked])))
             (objects (factory s) ! circuitBreaker) (world s, trace s) of
        (result, b, (w, t)) \<Rightarrow>
          (result,
           s\<lparr>factory := (factory s)\<lparr>objects := (objects (factory s))[circuitBreaker := b]\<rparr>,
             world := w, trace := t\<rparr>))"

text \<open>
  The loop \<open>for (let attempt = 1; attempt <= maxRetries; attempt++)\<close> from the state
  before an iteration, and the \<open>throw\<close> behind it.  \<open>if (options?.projectId)\<close> holds for
  a string that is not empty.
\<close>

function attempts ::
  "'w runtime \<Rightarrow> AICompletionRequest \<Rightarrow> CompleteOptions \<Rightarrow> 'w BaseAIProvider \<Rightarrow> bool \<Rightarrow> int
     \<Rightarrow> nat \<Rightarrow> int \<Rightarrow> error option \<Rightarrow> 'w program
     \<Rightarrow> (error + AICompletionResponse) \<times> 'w program" where
  "attempts rt request opts adapter use_cache max_retries circuitBreaker attempt lastError s =
     (if attempt \<le> max_retries then
        (case breaker_execute rt adapter request circuitBreaker s of
           (Inr resp, s) \<Rightarrow>
             (let s = (if use_cache \<and> stream request \<noteq> Some True
                       then s\<lparr>responseCache := (responseCache s)
                               (getCacheKey rt request \<mapsto>
                                  \<lparr>response = resp, timestamp = clock rt (world s)\<rparr>)\<rparr>
                       else s);
                  s = (case projectId opts of
                         None \<Rightarrow> s
                       | Some pid \<Rightarrow>
                           if pid \<noteq> [] then
                             s\<lparr>world := trackUsage rt
                                 \<lparr>UsageRecord.projectId = pid,
                                  UsageRecord.userId = userId opts,
                                  UsageRecord.model = AICompletionResponse.model resp,
                                  UsageRecord.promptTokens = TokenUsage.promptTokens (usage resp),
                                  UsageRecord.completionTokens = TokenUsage.completionTokens (usage resp),
                                  cost = estimatedCost (usage resp),
                                  UsageRecord.operation =
                                    (case operation opts of None \<Rightarrow> ''completion''
                                     | Some l \<Rightarrow> l)\<rparr>
                                 (world s)\<rparr>
                           else s)
              in (Inr resp, s))
         | (Inl err, s) \<Rightarrow>
             if instanceof_CircuitBreakerOpenError err \<or> isNonRetryableError err
             then (Inl err, s)
             else
               (let s = (if attempt < max_retries then
                           (let delay = min (1000 * 2 ^ nat (attempt - 1)) 10000
                            in s\<lparr>world := sleep rt delay (world s),
                                 trace := trace s @ [Slept delay]\<rparr>)
                         else s)
                in attempts rt request opts adapter use_cache max_retries circuitBreaker
                     (attempt + 1) (Some err) s))
      else
        (Inl (case lastError of
                None \<Rightarrow> Error None ''AI completion failed after retries''
              | Some e \<Rightarrow> e), s))"
  by pat_completeness auto
termination
  by (relation "measure (\<lambda>(rt, request, opts, adapter, use_cache, max_retries, circuitBreaker,
         attempt, lastError, s). nat (max_retries + 1 - attempt))") auto

text \<open>
  \<open>complete\<close>.  The result is what the call resolves to (\<open>Inr\<close>) or throws (\<open>Inl\<close>),
  and the program afterwards.  The estimate of the request's tokens only feeds a log
  message and is left out.
\<close>

definition AIService_complete ::
  "'w runtime \<Rightarrow> AICompletionRequest \<Rightarrow> CompleteOptions \<Rightarrow> 'w program
     \<Rightarrow> (error + AICompletionResponse) \<times> 'w program" where
  "AIService_complete rt request opts s =
     (case getProvider s (provider opts) of
        Inl e \<Rightarrow> (Inl e, s)
      | Inr adapter \<Rightarrow>
          (let use_cache = (case useCache opts of None \<Rightarrow> True | Some u \<Rightarrow> u);
               max_retries = (case maxRetries opts of None \<Rightarrow> 3 | Some n \<Rightarrow> n)
           in case cached_response rt request use_cache s of
                Some r \<Rightarrow> (Inr r, s)
              | None \<Rightarrow>
                  (case getOrCreate
                          (''ai-'' @ AIProvider_value
                             (case provider opts of None \<Rightarrow> defaultProvider s | Some p \<Rightarrow> p))
                          (Some ai_options) (factory s) of
                     (circuitBreaker, f) \<Rightarrow>
                       attempts rt request opts adapter use_cache max_retries circuitBreaker
                         1 None (s\<lparr>factory := f\<rparr>))))"

text \<open>The number of adapter calls a trace lists.\<close>

definition invocations :: "event list \<Rightarrow> nat" where
  "invocations t = length (filter (\<lambda>e. e = ProviderInvoked) t)"

declare attempts.simps [simp del]

text \<open>The durations of the sleeps a trace lists, in order.\<close>

fun sleeps :: "event list \<Rightarrow> int list" where
  "sleeps [] = []"
| "sleeps (ProviderInvoked # t) = sleeps t"
| "sleeps (Slept d # t) = d # sleeps t"

section \<open>Concrete inputs\<close>


definition w_opts :: CircuitBreakerOptions where
  "w_opts = \<lparr>name = ''ai-openai'', failureThreshold = 2, successThreshold = 2,
            timeout = 30000, resetTimeout = 60000\<rparr>"

definition failing :: "int \<Rightarrow> (error + unit) \<times> int" where
  "failing w = (Inl (Error (Some 503) ''unavailable''), w + 10)"

definition succeeding :: "int \<Rightarrow> (error + unit) \<times> int" where
  "succeeding w = (Inr (), w + 10)"

definition opened :: CircuitBreaker where
  "opened = executes (\<lambda>w. w) [(failing, 100), (failing, 200)] (new_CircuitBreaker w_opts)"

text \<open>
  A breaker whose reset timeout is the largest time value, after the one failed call that
  opens it.
\<close>

definition far_opts :: CircuitBreakerOptions where
  "far_opts = \<lparr>name = ''ai-openai'', failureThreshold = 1, successThreshold = 2,
              timeout = 30000, resetTimeout = 8640000000000000\<rparr>"

definition far_opened :: CircuitBreaker where
  "far_opened = executes (\<lambda>w. w) [(failing, 100)] (new_CircuitBreaker far_opts)"

definition empty_factory :: CircuitBreakerFactory where
  "empty_factory = \<lparr>breakers = [], objects = []\<rparr>"

text \<open>
  Options other than the ones \<open>AIService.complete\<close> passes: with every value supplied,
  and with two of them supplied.
\<close>

definition other_options :: PartialCircuitBreakerOptions where
  "other_options = \<lparr>name_p = None, failureThreshold_p = Some 1, successThreshold_p = Some 7,
                    timeout_p = Some 1, resetTimeout_p = Some 10\<rparr>"

definition mixed_options :: PartialCircuitBreakerOptions where
  "mixed_options = \<lparr>name_p = None, failureThreshold_p = Some 3, successThreshold_p = None,
                    timeout_p = None, resetTimeout_p = Some 500\<rparr>"

text \<open>
  A world for examples: a clock reading and the number of requests the vendor has been
  sent.  Vendors: one that answers, one that is overloaded at the first request and answers
  from then on, one that is overloaded at the first two requests, one that rejects the
  credentials.
\<close>

definition canned :: AICompletionResponse where
  "canned = \<lparr>AICompletionResponse.content = ''ok'', finishReason = Stop,
     usage = \<lparr>TokenUsage.promptTokens = 1000, TokenUsage.completionTokens = 500,
              totalTokens = 1500, estimatedCost = 75 / 10000\<rparr>,
     AICompletionResponse.model = ''gpt-4o'', cached = None\<rparr>"

definition steady ::
  "AICompletionRequest \<Rightarrow> int \<times> nat \<Rightarrow> (error + AICompletionResponse) \<times> (int \<times> nat)" where
  "steady request w = (Inr canned, (fst w + 50, Suc (snd w)))"

definition flaky ::
  "AICompletionRequest \<Rightarrow> int \<times> nat \<Rightarrow> (error + AICompletionResponse) \<times> (int \<times> nat)" where
  "flaky request w =
     (if snd w = 0 then Inl (Error (Some 503) ''overloaded'') else Inr canned,
      (fst w + 50, Suc (snd w)))"

definition overloaded_twice ::
  "AICompletionRequest \<Rightarrow> int \<times> nat \<Rightarrow> (error + AICompletionResponse) \<times> (int \<times> nat)" where
  "overloaded_twice request w =
     (if snd w < 2 then Inl (Error (Some 503) ''overloaded'') else Inr canned,
      (fst w + 50, Suc (snd w)))"

definition unauthorized ::
  "AICompletionRequest \<Rightarrow> int \<times> nat \<Rightarrow> (error + AICompletionResponse) \<times> (int \<times> nat)" where
  "unauthorized request w = (Inl (Error (Some 401) ''invalid api key''), (fst w + 50, Suc (snd w)))"

definition cx_openai :: "(int \<times> nat) BaseAIProvider" where
  "cx_openai = \<lparr>defaultModel = ''gpt-4o'', complete = steady,
     countTokens = quarter_length, isAvailable = True\<rparr>"

definition cx_anthropic :: "(int \<times> nat) BaseAIProvider" where
  "cx_anthropic = \<lparr>defaultModel = ''claude-3-5-sonnet-20241022'', complete = steady,
     countTokens = quarter_length, isAvailable = False\<rparr>"

definition cx_gemini :: "(int \<times> nat) BaseAIProvider" where
  "cx_gemini = \<lparr>defaultModel = ''gemini-1.5-flash'', complete = steady,
     countTokens = quarter_length, isAvailable = True\<rparr>"

definition cx_service :: "(int \<times> nat) AIService" where
  "cx_service = onModuleInit (new_AIService cx_openai cx_anthropic cx_gemini)"

definition only_gemini :: "(int \<times> nat) AIService" where
  "only_gemini = onModuleInit (new_AIService
       (cx_openai\<lparr>isAvailable := False\<rparr>) cx_anthropic cx_gemini)"

text \<open>
  The program at start with a given OpenAI adapter (the other two are not available), at
  clock reading 0: the service after \<open>onModuleInit\<close>, no breaker yet, an empty trace.
\<close>

definition program_with :: "(int \<times> nat) BaseAIProvider \<Rightarrow> (int \<times> nat) program" where
  "program_with openai =
     onModuleInit
       \<lparr>openaiProvider = openai, anthropicProvider = cx_anthropic,
        geminiProvider = cx_gemini\<lparr>isAvailable := False\<rparr>,
        providers = [], defaultProvider = OPENAI, responseCache = (\<lambda>k. None),
        factory = empty_factory, world = (0, 0), trace = []\<rparr>"

text \<open>A runtime whose usage log always throws.\<close>

definition rt0 :: "(int \<times> nat) runtime" where
  "rt0 = \<lparr>clock = fst, sleep = (\<lambda>ms w. (fst w + ms, snd w)),
          JSON_stringify = (\<lambda>d. concat (map ChatMessage.content (fst d))),
          usage_log = (\<lambda>r w. (Inl (Error None ''usage table missing''), w)),
          logger_error = (\<lambda>w. w)\<rparr>"

definition req0 :: AICompletionRequest where
  "req0 = \<lparr>messages = [\<lparr>role = System, ChatMessage.content = ''be brief''\<rparr>,
                        \<lparr>role = User, ChatMessage.content = ''hello''\<rparr>],
           AICompletionRequest.model = None, maxTokens = None, temperature = None,
           stream = None, responseFormat = None\<rparr>"

definition opts0 :: CompleteOptions where
  "opts0 = \<lparr>provider = None, CompleteOptions.projectId = Some ''p1'',
            CompleteOptions.userId = None, CompleteOptions.operation = None,
            useCache = None, maxRetries = None\<rparr>"

text \<open>The same program once \<open>complete\<close> has created the breaker, and one whose breaker is open.\<close>

definition ready_program :: "(int \<times> nat) BaseAIProvider \<Rightarrow> (int \<times> nat) program" where
  "ready_program openai =
     (program_with openai)
       \<lparr>factory := snd (getOrCreate ''ai-openai'' (Some ai_options) empty_factory)\<rparr>"

definition open_program :: "(int \<times> nat) program" where
  "open_program =
     (program_with cx_openai)
       \<lparr>factory := \<lparr>breakers = [(''ai-openai'', 0)], objects = [opened]\<rparr>\<rparr>"

definition usage0 :: UsageRecord where
  "usage0 = \<lparr>UsageRecord.projectId = ''p1'', UsageRecord.userId = None,
     UsageRecord.model = ''gpt-4o'', UsageRecord.promptTokens = 1000,
     UsageRecord.completionTokens = 500, cost = 75 / 10000,
     UsageRecord.operation = ''completion''\<rparr>"
section \<open>Properties of the circuit breaker\<close>


lemma transitionTo_HALF_OPEN:
  "transitionTo now HALF_OPEN b = (None, b\<lparr>state := HALF_OPEN, successCount := 0\<rparr>)"
  by (simp add: transitionTo_def)

lemma transitionTo_CLOSED:
  "transitionTo now CLOSED b
     = (None, b\<lparr>state := CLOSED, failureCount := 0, successCount := 0\<rparr>)"
  by (simp add: transitionTo_def)

lemma transitionTo_OPEN:
  "transitionTo now OPEN b
     = (if valid_time (now + resetTimeout (options b)) then None else Some RangeError,
        b\<lparr>state := OPEN, nextRetryTime := now + resetTimeout (options b)\<rparr>)"
  by (simp add: transitionTo_def)

lemma valid_time_bounds:
  "valid_time 8640000000000000" "\<not> valid_time 8640000000000001"
  "valid_time (- 8640000000000000)" "\<not> valid_time (- 8640000000000001)"
  by (simp_all add: valid_time_def)

lemma onSuccess_throws_nothing: "fst (onSuccess now b) = None"
  by (simp add: onSuccess_def transitionTo_CLOSED Let_def)

lemma reset_throws_nothing: "fst (reset now b) = None"
  by (simp add: reset_def transitionTo_CLOSED)

lemma try_operation_breaker:
  "fst (snd (try_operation now action b w))
     = (if isl (fst (action w)) then snd (onFailure (now (snd (action w))) b)
        else snd (onSuccess (now (snd (action w))) b))"
proof (cases "action w")
  case (Pair r w')
  show ?thesis
  proof (cases r)
    case (Inl e)
    then show ?thesis using Pair
      by (cases "onFailure (now w') b") (auto simp: try_operation_def catch_block_def split: option.splits)
  next
    case (Inr v)
    obtain t b' where s: "onSuccess (now w') b = (t, b')" by (cases "onSuccess (now w') b")
    have "t = None" using onSuccess_throws_nothing[of "now w'" b] s by simp
    then show ?thesis using Pair Inr s by (simp add: try_operation_def)
  qed
qed

lemma try_operation_world:
  "snd (snd (try_operation now action b w)) = snd (action w)"
proof (cases "action w")
  case (Pair r w')
  show ?thesis
  proof (cases r)
    case (Inl e)
    then show ?thesis using Pair
      by (cases "onFailure (now w') b") (auto simp: try_operation_def catch_block_def split: option.splits)
  next
    case (Inr v)
    obtain t b' where s: "onSuccess (now w') b = (t, b')" by (cases "onSuccess (now w') b")
    have "t = None" using onSuccess_throws_nothing[of "now w'" b] s by simp
    then show ?thesis using Pair Inr s by (simp add: try_operation_def)
  qed
qed

lemma try_operation_result:
  "fst (try_operation now action b w)
     = (case fst (action w) of
          Inr v \<Rightarrow> Inr v
        | Inl e \<Rightarrow> (case fst (onFailure (now (snd (action w))) b) of
                      None \<Rightarrow> Inl e | Some thrown \<Rightarrow> Inl thrown))"
proof (cases "action w")
  case (Pair r w')
  show ?thesis
  proof (cases r)
    case (Inl e)
    then show ?thesis using Pair
      by (cases "onFailure (now w') b") (auto simp: try_operation_def catch_block_def split: option.splits)
  next
    case (Inr v)
    obtain t b' where s: "onSuccess (now w') b = (t, b')" by (cases "onSuccess (now w') b")
    have "t = None" using onSuccess_throws_nothing[of "now w'" b] s by simp
    then show ?thesis using Pair Inr s by (simp add: try_operation_def)
  qed
qed

lemma executes_append:
  "executes now (cs @ ds) b = executes now ds (executes now cs b)"
  by (induction cs arbitrary: b) simp_all

lemma execute_closed_fails:
  "state b = CLOSED \<Longrightarrow> fails c \<Longrightarrow>
   fst (snd (execute now (fst c) b (snd c))) = snd (onFailure (settled_at now c) b)"
  by (simp add: execute_def try_operation_breaker fails_def settled_at_def)

lemma execute_closed_succeeds:
  "state b = CLOSED \<Longrightarrow> succeeds c \<Longrightarrow>
   fst (snd (execute now (fst c) b (snd c))) = snd (onSuccess (settled_at now c) b)"
  by (simp add: execute_def try_operation_breaker succeeds_def settled_at_def)

lemma onFailure_closed_below:
  "state b = CLOSED \<Longrightarrow> failureCount b + 1 < failureThreshold (options b) \<Longrightarrow>
   state (snd (onFailure t b)) = CLOSED \<and> failureCount (snd (onFailure t b)) = failureCount b + 1
   \<and> options (snd (onFailure t b)) = options b"
  by (simp add: onFailure_def Let_def)

lemma onFailure_closed_reached:
  "state b = CLOSED \<Longrightarrow> failureThreshold (options b) \<le> failureCount b + 1 \<Longrightarrow>
   state (snd (onFailure t b)) = OPEN
   \<and> nextRetryTime (snd (onFailure t b)) = t + resetTimeout (options b)"
  by (simp add: onFailure_def transitionTo_OPEN Let_def)

lemma onSuccess_closed:
  "state b = CLOSED \<Longrightarrow>
   snd (onSuccess t b) = b\<lparr>failureCount := 0\<rparr>"
  by (simp add: onSuccess_def Let_def)

lemma executes_closed_failures:
  "state b = CLOSED \<Longrightarrow> \<forall>c\<in>set cs. fails c \<Longrightarrow>
   failureCount b + int (length cs) < failureThreshold (options b) \<Longrightarrow>
   state (executes now cs b) = CLOSED
   \<and> failureCount (executes now cs b) = failureCount b + int (length cs)
   \<and> options (executes now cs b) = options b"
proof (induction cs arbitrary: b)
  case Nil
  then show ?case by simp
next
  case (Cons c cs)
  let ?b1 = "snd (onFailure (settled_at now c) b)"
  have step: "fst (snd (execute now (fst c) b (snd c))) = ?b1"
    using Cons.prems by (simp add: execute_closed_fails)
  have b1: "state ?b1 = CLOSED \<and> failureCount ?b1 = failureCount b + 1 \<and> options ?b1 = options b"
    using Cons.prems by (intro onFailure_closed_below) auto
  have "state (executes now cs ?b1) = CLOSED
   \<and> failureCount (executes now cs ?b1) = failureCount ?b1 + int (length cs)
   \<and> options (executes now cs ?b1) = options ?b1"
    using Cons.prems b1 by (intro Cons.IH) auto
  then show ?case using step b1 by simp
qed

lemma execute_open_early:
  "state b = OPEN \<Longrightarrow> now w < nextRetryTime b \<Longrightarrow>
   execute now action b w =
     (if valid_time (nextRetryTime b)
      then Inl (CircuitBreakerOpenError (name (options b)) (nextRetryTime b))
      else Inl RangeError, b, w)"
  by (simp add: execute_def)

text \<open>
  What the breaker does for retry times that are time values.  A breaker in CLOSED whose
  \<open>failureCount\<close> is below \<open>failureThreshold\<close> is OPEN once its consecutive failed calls
  have brought the count to \<open>failureThreshold\<close>, and not before: after every shorter
  series of failed calls it is still CLOSED.  When it opens, \<open>nextRetryTime\<close> is the clock
  reading at which the opening failure settled plus \<open>resetTimeout\<close>.  A successful call
  on a CLOSED breaker leaves it CLOSED and sets \<open>failureCount\<close> to 0, so the count is
  that of the failures since the last success.  A call on an OPEN breaker made strictly
  before a \<open>nextRetryTime\<close> that is a time value throws \<open>CircuitBreakerOpenError\<close>,
  whatever the operation passed is; the operation is not run (the world is the one the
  call was made in) and the breaker is unchanged.
\<close>

lemma circuit_opens_at_threshold_and_rejects_while_open:
  "(state b = CLOSED \<and> failureCount b < failureThreshold (options b)
      \<and> int (length calls) = failureThreshold (options b) - failureCount b
      \<and> (\<forall>c\<in>set calls. fails c)
    \<longrightarrow> state (executes Date_now calls b) = OPEN
      \<and> nextRetryTime (executes Date_now calls b)
          = settled_at Date_now (last calls) + resetTimeout (options b)
      \<and> (\<forall>k<length calls. state (executes Date_now (take k calls) b) = CLOSED))
   \<and> (state b0 = CLOSED \<and> succeeds c0
    \<longrightarrow> executes Date_now [c0] b0 = b0\<lparr>failureCount := 0\<rparr>)
   \<and> (state b' = OPEN \<and> Date_now w < nextRetryTime b' \<and> valid_time (nextRetryTime b')
    \<longrightarrow> execute Date_now action b' w =
          (Inl (CircuitBreakerOpenError (name (options b')) (nextRetryTime b')), b', w))"
proof (intro conjI impI allI)
  assume a: "state b = CLOSED \<and> failureCount b < failureThreshold (options b)
      \<and> int (length calls) = failureThreshold (options b) - failureCount b
      \<and> (\<forall>c\<in>set calls. fails c)"
  then have ne: "calls \<noteq> []" by auto
  define cs where "cs = butlast calls"
  define c where "c = last calls"
  have calls: "calls = cs @ [c]" using ne by (simp add: cs_def c_def)
  have len: "failureCount b + int (length cs) + 1 = failureThreshold (options b)"
    using a calls by simp
  have pre: "state (executes Date_now cs b) = CLOSED
   \<and> failureCount (executes Date_now cs b) = failureCount b + int (length cs)
   \<and> options (executes Date_now cs b) = options b"
    using a calls len by (intro executes_closed_failures) auto
  have fc: "fails c" using a calls by simp
  have fin: "executes Date_now calls b
      = snd (onFailure (settled_at Date_now c) (executes Date_now cs b))"
    using pre fc by (simp add: calls executes_append execute_closed_fails)
  have op: "state (snd (onFailure (settled_at Date_now c) (executes Date_now cs b))) = OPEN \<and>
     nextRetryTime (snd (onFailure (settled_at Date_now c) (executes Date_now cs b)))
       = settled_at Date_now c + resetTimeout (options (executes Date_now cs b))"
    using pre len by (intro onFailure_closed_reached) auto
  show "state (executes Date_now calls b) = OPEN" using fin op by simp
  show "nextRetryTime (executes Date_now calls b)
          = settled_at Date_now (last calls) + resetTimeout (options b)"
    using fin op pre by (simp add: c_def)
  fix k assume k: "k < length calls"
  have tk: "take k calls = take k cs" using k calls by simp
  have "state (executes Date_now (take k cs) b) = CLOSED
   \<and> failureCount (executes Date_now (take k cs) b) = failureCount b + int (length (take k cs))
   \<and> options (executes Date_now (take k cs) b) = options b"
    using a calls len by (intro executes_closed_failures) (auto dest: in_set_takeD)
  then show "state (executes Date_now (take k calls) b) = CLOSED" using tk by simp
next
  assume "state b0 = CLOSED \<and> succeeds c0"
  then show "executes Date_now [c0] b0 = b0\<lparr>failureCount := 0\<rparr>"
    by (simp add: execute_closed_succeeds onSuccess_closed)
next
  assume "state b' = OPEN \<and> Date_now w < nextRetryTime b' \<and> valid_time (nextRetryTime b')"
  then show "execute Date_now action b' w =
          (Inl (CircuitBreakerOpenError (name (options b')) (nextRetryTime b')), b', w)"
    by (simp add: execute_open_early)
qed

lemmas breaker_defs =
  new_CircuitBreaker_def execute_def try_operation_def catch_block_def onSuccess_def
  onFailure_def transitionTo_def valid_time_def RangeError_def Let_def

lemma opened_eq: "opened = \<lparr>options = w_opts, state = OPEN, failureCount = 2, successCount = 0,
      lastFailureTime = 210, nextRetryTime = 60210\<rparr>"
  by (simp add: opened_def w_opts_def failing_def breaker_defs)

text \<open>
  The same on a breaker with thresholds 2 and reset timeout 60000: two failures open it
  with retry time 60210, and a call at 300 is refused.  With threshold 3, a success after
  two failures sets the count back, so that two more failures do not open the breaker.
\<close>

lemma circuit_opens_at_threshold_and_rejects_while_open_example:
  "state (new_CircuitBreaker w_opts) = CLOSED
   \<and> failureCount (new_CircuitBreaker w_opts) < failureThreshold (options (new_CircuitBreaker w_opts))
   \<and> int (length [(failing, 100), (failing, 200)])
       = failureThreshold (options (new_CircuitBreaker w_opts)) - failureCount (new_CircuitBreaker w_opts)
   \<and> fails (failing, 100) \<and> fails (failing, 200)
   \<and> state (executes (\<lambda>w. w) [(failing, 100), (failing, 200)] (new_CircuitBreaker w_opts)) = OPEN
   \<and> nextRetryTime (executes (\<lambda>w. w) [(failing, 100), (failing, 200)] (new_CircuitBreaker w_opts)) = 60210
   \<and> state (new_CircuitBreaker w_opts\<lparr>failureCount := 1\<rparr>) = CLOSED \<and> succeeds (succeeding, 150)
   \<and> executes (\<lambda>w. w) [(succeeding, 150)] (new_CircuitBreaker w_opts\<lparr>failureCount := 1\<rparr>)
       = new_CircuitBreaker w_opts
   \<and> state opened = OPEN \<and> (300::int) < nextRetryTime opened \<and> valid_time (nextRetryTime opened)
   \<and> execute (\<lambda>w. w) succeeding opened 300
       = (Inl (CircuitBreakerOpenError ''ai-openai'' 60210), opened, 300)"
  using circuit_opens_at_threshold_and_rejects_while_open[of "new_CircuitBreaker w_opts" "[(failing, 100), (failing, 200)]" "\<lambda>w. w" "new_CircuitBreaker w_opts\<lparr>failureCount := 1\<rparr>" "(succeeding, 150)" opened 300 succeeding]
  by (simp add: opened_eq new_CircuitBreaker_def w_opts_def fails_def succeeds_def failing_def
        succeeding_def settled_at_def valid_time_def)

lemma success_resets_the_failure_count:
  "executes (\<lambda>w. w)
     [(failing, 100), (failing, 200), (succeeding, 300), (failing, 400), (failing, 500)]
     (new_CircuitBreaker (w_opts\<lparr>failureThreshold := 3\<rparr>))
   = \<lparr>options = w_opts\<lparr>failureThreshold := 3\<rparr>, state = CLOSED, failureCount = 2,
      successCount = 0, lastFailureTime = 510, nextRetryTime = 0\<rparr>"
  by (simp add: w_opts_def failing_def succeeding_def breaker_defs)

text \<open>
  Claim C1.  The claim has every call on an OPEN breaker made before \<open>nextRetryTime\<close>
  throw \<open>CircuitBreakerOpenError\<close>.  On a breaker with \<open>failureThreshold\<close> 1 and
  \<open>resetTimeout\<close> 8640000000000000, one failed call that settles at clock reading 110
  opens the breaker with \<open>nextRetryTime\<close> 8640000000000110, which is not a time value.
  The next call, made at 200, is before \<open>nextRetryTime\<close>; it does not run its operation
  and leaves the breaker as it is, but what it throws is the \<open>RangeError\<close> of
  \<open>toISOString\<close>, raised while the message of the \<open>CircuitBreakerOpenError\<close> is built.
  The failed call that opened the breaker threw that \<open>RangeError\<close> too, in place of the
  error of its operation.
\<close>

theorem open_breaker_throws_RangeError_when_retry_time_is_no_time_value:
  "state far_opened = OPEN
   \<and> nextRetryTime far_opened = 8640000000000110
   \<and> (200::int) < nextRetryTime far_opened
   \<and> execute (\<lambda>w. w) succeeding far_opened 200
       = (Inl (Error None ''Invalid time value''), far_opened, 200)
   \<and> fst (execute (\<lambda>w. w) failing (new_CircuitBreaker far_opts) 100)
       = Inl (Error None ''Invalid time value'')"
  by (simp add: far_opened_def far_opts_def failing_def succeeding_def breaker_defs)



lemma execute_open_due:
  "state b = OPEN \<Longrightarrow> nextRetryTime b \<le> now w \<Longrightarrow>
   execute now action b w = execute now action (b\<lparr>state := HALF_OPEN, successCount := 0\<rparr>) w"
  by (simp add: execute_def transitionTo_HALF_OPEN)

lemma execute_invokes:
  "state b \<noteq> OPEN \<or> nextRetryTime b \<le> now w \<Longrightarrow>
   snd (snd (execute now action b w)) = snd (action w)"
  by (auto simp: execute_def transitionTo_HALF_OPEN try_operation_world)

lemma onFailure_half_open:
  "state b = HALF_OPEN \<Longrightarrow>
   state (snd (onFailure t b)) = OPEN
   \<and> nextRetryTime (snd (onFailure t b)) = t + resetTimeout (options b)
   \<and> successCount (snd (onFailure t b)) = 0
   \<and> fst (onFailure t b)
       = (if valid_time (t + resetTimeout (options b)) then None else Some RangeError)"
  by (simp add: onFailure_def transitionTo_OPEN Let_def)

lemma execute_open_due_result:
  "state b = OPEN \<Longrightarrow> nextRetryTime b \<le> now w \<Longrightarrow>
   fst (execute now action b w)
     = (if isl (fst (action w))
           \<and> \<not> valid_time (now (snd (action w)) + resetTimeout (options b))
        then Inl RangeError else fst (action w))"
  using onFailure_half_open[of "b\<lparr>state := HALF_OPEN, successCount := 0\<rparr>" "now (snd (action w))"]
  by (cases "fst (action w)")
     (simp_all add: execute_def transitionTo_HALF_OPEN try_operation_result)

lemma execute_half_open_succeeds:
  "state b = HALF_OPEN \<Longrightarrow> succeeds c \<Longrightarrow>
   fst (snd (execute now (fst c) b (snd c))) = snd (onSuccess (settled_at now c) b)"
  by (simp add: execute_def try_operation_breaker succeeds_def settled_at_def)

lemma execute_half_open_fails:
  "state b = HALF_OPEN \<Longrightarrow> fails c \<Longrightarrow>
   fst (snd (execute now (fst c) b (snd c))) = snd (onFailure (settled_at now c) b)"
  by (simp add: execute_def try_operation_breaker fails_def settled_at_def)

lemma onSuccess_half_open_below:
  "state b = HALF_OPEN \<Longrightarrow> successCount b + 1 < successThreshold (options b) \<Longrightarrow>
   state (snd (onSuccess t b)) = HALF_OPEN
   \<and> successCount (snd (onSuccess t b)) = successCount b + 1
   \<and> options (snd (onSuccess t b)) = options b"
  by (simp add: onSuccess_def Let_def)

lemma onSuccess_half_open_reached:
  "state b = HALF_OPEN \<Longrightarrow> successThreshold (options b) \<le> successCount b + 1 \<Longrightarrow>
   state (snd (onSuccess t b)) = CLOSED \<and> failureCount (snd (onSuccess t b)) = 0
   \<and> successCount (snd (onSuccess t b)) = 0"
  by (simp add: onSuccess_def transitionTo_CLOSED Let_def)

lemma executes_half_open_successes:
  "state b = HALF_OPEN \<Longrightarrow> \<forall>c\<in>set cs. succeeds c \<Longrightarrow>
   successCount b + int (length cs) < successThreshold (options b) \<Longrightarrow>
   state (executes now cs b) = HALF_OPEN
   \<and> successCount (executes now cs b) = successCount b + int (length cs)
   \<and> options (executes now cs b) = options b"
proof (induction cs arbitrary: b)
  case Nil
  then show ?case by simp
next
  case (Cons c cs)
  let ?b1 = "snd (onSuccess (settled_at now c) b)"
  have step: "fst (snd (execute now (fst c) b (snd c))) = ?b1"
    using Cons.prems by (simp add: execute_half_open_succeeds)
  have b1: "state ?b1 = HALF_OPEN \<and> successCount ?b1 = successCount b + 1
      \<and> options ?b1 = options b"
    using Cons.prems by (intro onSuccess_half_open_below) auto
  have "state (executes now cs ?b1) = HALF_OPEN
   \<and> successCount (executes now cs ?b1) = successCount ?b1 + int (length cs)
   \<and> options (executes now cs ?b1) = options ?b1"
    using Cons.prems b1 by (intro Cons.IH) auto
  then show ?case using step b1 by simp
qed

text \<open>
  Claim C2.  A call on an OPEN breaker made at or after \<open>nextRetryTime\<close> behaves as the
  same call on that breaker put in HALF_OPEN with \<open>successCount\<close> 0, and runs the
  operation; the call returns or throws what the operation does, except that the
  \<open>RangeError\<close> of \<open>toISOString\<close> takes the place of the operation's error when the
  operation fails and the new retry time is not a time value.  A HALF_OPEN breaker is CLOSED, with \<open>failureCount\<close> and \<open>successCount\<close>
  0, once consecutive successful calls have brought \<open>successCount\<close> to
  \<open>successThreshold\<close>, and stays HALF_OPEN until then.  One failed call on a HALF_OPEN
  breaker leaves it OPEN with \<open>nextRetryTime\<close> the clock reading at which that failure
  settled plus \<open>resetTimeout\<close>, and \<open>successCount\<close> 0.
\<close>

theorem half_open_probe_closes_or_reopens:
  "(state b = OPEN \<and> nextRetryTime b \<le> Date_now w
    \<longrightarrow> execute Date_now action b w
          = execute Date_now action (b\<lparr>state := HALF_OPEN, successCount := 0\<rparr>) w
      \<and> fst (execute Date_now action b w)
          = (if isl (fst (action w))
                \<and> \<not> valid_time (Date_now (snd (action w)) + resetTimeout (options b))
             then Inl RangeError else fst (action w))
      \<and> snd (snd (execute Date_now action b w)) = snd (action w))
   \<and> (state h = HALF_OPEN \<and> successCount h < successThreshold (options h)
      \<and> int (length calls) = successThreshold (options h) - successCount h
      \<and> (\<forall>c\<in>set calls. succeeds c)
    \<longrightarrow> state (executes Date_now calls h) = CLOSED
      \<and> failureCount (executes Date_now calls h) = 0
      \<and> successCount (executes Date_now calls h) = 0
      \<and> (\<forall>k<length calls. state (executes Date_now (take k calls) h) = HALF_OPEN))
   \<and> (state h' = HALF_OPEN \<and> fails c
    \<longrightarrow> state (executes Date_now [c] h') = OPEN
      \<and> nextRetryTime (executes Date_now [c] h')
          = settled_at Date_now c + resetTimeout (options h')
      \<and> successCount (executes Date_now [c] h') = 0)"
proof (intro conjI impI allI)
  assume a: "state b = OPEN \<and> nextRetryTime b \<le> Date_now w"
  then show "execute Date_now action b w
          = execute Date_now action (b\<lparr>state := HALF_OPEN, successCount := 0\<rparr>) w"
    by (simp add: execute_open_due)
  show "fst (execute Date_now action b w)
          = (if isl (fst (action w))
                \<and> \<not> valid_time (Date_now (snd (action w)) + resetTimeout (options b))
             then Inl RangeError else fst (action w))"
    using a by (simp add: execute_open_due_result)
  show "snd (snd (execute Date_now action b w)) = snd (action w)"
    using a execute_invokes[of b Date_now w action] by simp
next
  assume a: "state h = HALF_OPEN \<and> successCount h < successThreshold (options h)
      \<and> int (length calls) = successThreshold (options h) - successCount h
      \<and> (\<forall>c\<in>set calls. succeeds c)"
  then have ne: "calls \<noteq> []" by auto
  define cs where "cs = butlast calls"
  define d where "d = last calls"
  have calls: "calls = cs @ [d]" using ne by (simp add: cs_def d_def)
  have len: "successCount h + int (length cs) + 1 = successThreshold (options h)"
    using a calls by simp
  have pre: "state (executes Date_now cs h) = HALF_OPEN
   \<and> successCount (executes Date_now cs h) = successCount h + int (length cs)
   \<and> options (executes Date_now cs h) = options h"
    using a calls len by (intro executes_half_open_successes) auto
  have sd: "succeeds d" using a calls by simp
  have fin: "executes Date_now calls h
      = snd (onSuccess (settled_at Date_now d) (executes Date_now cs h))"
    using pre sd by (simp add: calls executes_append execute_half_open_succeeds)
  have cl: "state (snd (onSuccess (settled_at Date_now d) (executes Date_now cs h))) = CLOSED
     \<and> failureCount (snd (onSuccess (settled_at Date_now d) (executes Date_now cs h))) = 0
     \<and> successCount (snd (onSuccess (settled_at Date_now d) (executes Date_now cs h))) = 0"
    using pre len by (intro onSuccess_half_open_reached) auto
  show "state (executes Date_now calls h) = CLOSED" using fin cl by simp
  show "failureCount (executes Date_now calls h) = 0" using fin cl by simp
  show "successCount (executes Date_now calls h) = 0" using fin cl by simp
  fix k assume k: "k < length calls"
  have tk: "take k calls = take k cs" using k calls by simp
  have "state (executes Date_now (take k cs) h) = HALF_OPEN
   \<and> successCount (executes Date_now (take k cs) h) = successCount h + int (length (take k cs))
   \<and> options (executes Date_now (take k cs) h) = options h"
    using a calls len by (intro executes_half_open_successes) (auto dest: in_set_takeD)
  then show "state (executes Date_now (take k calls) h) = HALF_OPEN" using tk by simp
next
  assume a: "state h' = HALF_OPEN \<and> fails c"
  then have e: "executes Date_now [c] h' = snd (onFailure (settled_at Date_now c) h')"
    by (simp add: execute_half_open_fails)
  show "state (executes Date_now [c] h') = OPEN"
    using a e onFailure_half_open[of h' "settled_at Date_now c"] by simp
  show "nextRetryTime (executes Date_now [c] h')
          = settled_at Date_now c + resetTimeout (options h')"
    using a e onFailure_half_open[of h' "settled_at Date_now c"] by simp
  show "successCount (executes Date_now [c] h') = 0"
    using a e onFailure_half_open[of h' "settled_at Date_now c"] by simp
qed

theorem half_open_probe_closes_or_reopens_witness:
  "state opened = OPEN \<and> nextRetryTime opened \<le> (70000::int)
   \<and> execute (\<lambda>w. w) succeeding opened 70000
       = (Inr (), opened\<lparr>state := HALF_OPEN, successCount := 1, failureCount := 0\<rparr>, 70010)
   \<and> state (opened\<lparr>state := HALF_OPEN, successCount := 0\<rparr>) = HALF_OPEN
   \<and> successCount (opened\<lparr>state := HALF_OPEN, successCount := 0\<rparr>)
       < successThreshold (options (opened\<lparr>state := HALF_OPEN, successCount := 0\<rparr>))
   \<and> int (length [(succeeding, 70000), (succeeding, 70100)])
       = successThreshold (options (opened\<lparr>state := HALF_OPEN, successCount := 0\<rparr>))
         - successCount (opened\<lparr>state := HALF_OPEN, successCount := 0\<rparr>)
   \<and> succeeds (succeeding, 70000) \<and> succeeds (succeeding, 70100)
   \<and> state (executes (\<lambda>w. w) [(succeeding, 70000), (succeeding, 70100)]
         (opened\<lparr>state := HALF_OPEN, successCount := 0\<rparr>)) = CLOSED
   \<and> fails (failing, 70000)
   \<and> executes (\<lambda>w. w) [(failing, 70000)] (opened\<lparr>state := HALF_OPEN, successCount := 0\<rparr>)
       = opened\<lparr>state := OPEN, failureCount := 3, lastFailureTime := 70010,
                 nextRetryTime := 130010\<rparr>"
  using half_open_probe_closes_or_reopens[of opened "\<lambda>w. w" 70000 succeeding
      "opened\<lparr>state := HALF_OPEN, successCount := 0\<rparr>"
      "[(succeeding, 70000), (succeeding, 70100)]"
      "opened\<lparr>state := HALF_OPEN, successCount := 0\<rparr>" "(failing, 70000)"]
  by (simp add: opened_eq w_opts_def fails_def succeeds_def failing_def succeeding_def
        settled_at_def breaker_defs)

section \<open>Properties of the circuit breaker factory\<close>

lemma nullish_simps:
  "nullish None prop d = d"
  "nullish (Some p) prop d = (case prop p of None \<Rightarrow> d | Some v \<Rightarrow> v)"
  by (simp_all add: nullish_def)

lemma map_of_Map_set: "map_of (Map_set m k v) = (map_of m)(k \<mapsto> v)"
  by (induction m) auto

lemma options_transitionTo: "options (snd (transitionTo now s b)) = options b"
  by (cases s) (simp_all add: transitionTo_def Let_def)

lemma options_reset: "options (snd (reset now b)) = options b"
  by (simp add: reset_def options_transitionTo)

lemma options_onSuccess: "options (snd (onSuccess now b)) = options b"
  by (simp add: onSuccess_def Let_def options_transitionTo)

lemma options_onFailure: "options (snd (onFailure now b)) = options b"
  by (simp add: onFailure_def Let_def options_transitionTo)

lemma options_execute: "options (fst (snd (execute now action b w))) = options b"
  by (simp add: execute_def transitionTo_HALF_OPEN try_operation_breaker options_onSuccess
        options_onFailure)

lemma registered_getOrCreate_first:
  "map_of (breakers f) n = None \<Longrightarrow>
   registered (snd (getOrCreate n opts f)) n (fst (getOrCreate n opts f))
     \<lparr>name = n,
      failureThreshold = nullish opts failureThreshold_p 5,
      successThreshold = nullish opts successThreshold_p 2,
      timeout = nullish opts timeout_p 30000,
      resetTimeout = nullish opts resetTimeout_p 60000\<rparr>"
  by (simp add: getOrCreate_def registered_def Let_def new_CircuitBreaker_def map_of_Map_set)

lemma getOrCreate_registered:
  "registered f n a opts \<Longrightarrow> getOrCreate n o2 f = (a, f)"
  by (simp add: getOrCreate_def registered_def)

lemma registered_getOrCreate_other:
  "registered f n a opts \<Longrightarrow> registered (snd (getOrCreate m o2 f)) n a opts"
  by (cases "map_of (breakers f) m")
     (auto simp: getOrCreate_def registered_def Let_def nth_append map_of_Map_set)

lemma reset_fold_length:
  "length (foldl (\<lambda>os a. os[a := snd (reset now (os ! a))]) os as) = length os"
  by (induction as arbitrary: os) simp_all

lemma reset_fold_options:
  "a < length os \<Longrightarrow>
   options (foldl (\<lambda>os a. os[a := snd (reset now (os ! a))]) os as ! a) = options (os ! a)"
proof (induction as arbitrary: os)
  case Nil
  then show ?case by simp
next
  case (Cons x as)
  have "options (os[x := snd (reset now (os ! x))] ! a) = options (os ! a)"
    using Cons.prems by (cases "x = a") (simp_all add: options_reset)
  then show ?case using Cons by simp
qed

lemma registered_use:
  "registered f n a opts \<Longrightarrow> registered (use Date_now f u) n a opts"
proof (cases u)
  case (GetOrCreate m o2)
  assume "registered f n a opts"
  then show ?thesis using GetOrCreate by (simp add: registered_getOrCreate_other)
next
  case (Reset m now)
  assume r: "registered f n a opts"
  show ?thesis
  proof (cases "map_of (breakers f) m")
    case None
    then show ?thesis using r Reset by (simp add: CircuitBreakerFactory_reset_def)
  next
    case (Some x)
    then show ?thesis using r Reset
      by (cases "x = a") (simp_all add: CircuitBreakerFactory_reset_def registered_def options_reset)
  qed
next
  case (ResetAll now)
  assume "registered f n a opts"
  then show ?thesis using ResetAll
    by (simp add: resetAll_def registered_def reset_fold_length reset_fold_options)
next
  case (Execute x action w)
  assume "registered f n a opts"
  then show ?thesis using Execute
    by (cases "x = a") (simp_all add: registered_def options_execute)
qed

lemma registered_uses:
  "registered f n a opts \<Longrightarrow> registered (foldl (use Date_now) f us) n a opts"
  by (induction us arbitrary: f) (simp_all add: registered_use)

lemma nullish_cases:
  "\<lparr>name = n,
    failureThreshold = nullish o1 failureThreshold_p 5,
    successThreshold = nullish o1 successThreshold_p 2,
    timeout = nullish o1 timeout_p 30000,
    resetTimeout = nullish o1 resetTimeout_p 60000\<rparr>
   = (case o1 of
        None \<Rightarrow> \<lparr>name = n, failureThreshold = 5, successThreshold = 2, timeout = 30000,
                 resetTimeout = 60000\<rparr>
      | Some p \<Rightarrow>
          \<lparr>name = n,
           failureThreshold = (case failureThreshold_p p of None \<Rightarrow> 5 | Some v \<Rightarrow> v),
           successThreshold = (case successThreshold_p p of None \<Rightarrow> 2 | Some v \<Rightarrow> v),
           timeout = (case timeout_p p of None \<Rightarrow> 30000 | Some v \<Rightarrow> v),
           resetTimeout = (case resetTimeout_p p of None \<Rightarrow> 60000 | Some v \<Rightarrow> v)\<rparr>)"
  by (cases o1) (simp_all add: nullish_simps)

text \<open>
  Claim C10.  Once \<open>getOrCreate\<close> has created the breaker of a name \<open>n\<close> with the options
  \<open>o1\<close>, then after any further uses of the factory and of its breakers (calls of
  \<open>getOrCreate\<close> with any name and options, \<open>reset\<close>, \<open>resetAll\<close>, \<open>execute\<close>) a call
  \<open>getOrCreate n o2\<close> returns the reference the first call returned and changes nothing:
  no breaker is created and \<open>o2\<close> is not used.  The configuration of that breaker is
  still the one of its creation: each of \<open>failureThreshold\<close>, \<open>successThreshold\<close>,
  \<open>timeout\<close> and \<open>resetTimeout\<close> has the value \<open>o1\<close> supplied, and where \<open>o1\<close> is
  missing or supplies none, the default 5, 2, 30000 and 60000.
\<close>

theorem getOrCreate_returns_first_instance_with_first_options:
  "map_of (breakers f) n = None \<Longrightarrow>
   getOrCreate n o2 (foldl (use Date_now) (snd (getOrCreate n o1 f)) us)
     = (fst (getOrCreate n o1 f), foldl (use Date_now) (snd (getOrCreate n o1 f)) us)
   \<and> fst (getOrCreate n o1 f) < length (objects (foldl (use Date_now) (snd (getOrCreate n o1 f)) us))
   \<and> options (objects (foldl (use Date_now) (snd (getOrCreate n o1 f)) us) ! fst (getOrCreate n o1 f))
       = (case o1 of
            None \<Rightarrow> \<lparr>name = n, failureThreshold = 5, successThreshold = 2, timeout = 30000,
                     resetTimeout = 60000\<rparr>
          | Some p \<Rightarrow>
              \<lparr>name = n,
               failureThreshold = (case failureThreshold_p p of None \<Rightarrow> 5 | Some v \<Rightarrow> v),
               successThreshold = (case successThreshold_p p of None \<Rightarrow> 2 | Some v \<Rightarrow> v),
               timeout = (case timeout_p p of None \<Rightarrow> 30000 | Some v \<Rightarrow> v),
               resetTimeout = (case resetTimeout_p p of None \<Rightarrow> 60000 | Some v \<Rightarrow> v)\<rparr>)"
proof -
  assume "map_of (breakers f) n = None"
  then have "registered (foldl (use Date_now) (snd (getOrCreate n o1 f)) us) n
     (fst (getOrCreate n o1 f))
     \<lparr>name = n,
      failureThreshold = nullish o1 failureThreshold_p 5,
      successThreshold = nullish o1 successThreshold_p 2,
      timeout = nullish o1 timeout_p 30000,
      resetTimeout = nullish o1 resetTimeout_p 60000\<rparr>"
    by (intro registered_uses registered_getOrCreate_first)
  then show ?thesis
    using getOrCreate_registered[of _ n _ _ o2] nullish_cases[of n o1]
    by (simp add: registered_def)
qed

text \<open>
  A breaker created with all four values supplied (1, 7, 1, 10) keeps them when later
  calls pass the options of \<open>AIService.complete\<close> or none; one created with
  \<open>failureThreshold\<close> 3 and \<open>resetTimeout\<close> 500 only has the defaults 2 and 30000 for
  the other two.
\<close>

theorem getOrCreate_returns_first_instance_with_first_options_witness:
  "map_of (breakers empty_factory) ''ai-openai'' = None
   \<and> getOrCreate ''ai-openai'' (Some other_options) empty_factory
       = (0, \<lparr>breakers = [(''ai-openai'', 0)],
              objects = [new_CircuitBreaker
                \<lparr>name = ''ai-openai'', failureThreshold = 1, successThreshold = 7,
                 timeout = 1, resetTimeout = 10\<rparr>]\<rparr>)
   \<and> fst (getOrCreate ''ai-openai'' (Some ai_options)
         (foldl (use (\<lambda>w. w)) (snd (getOrCreate ''ai-openai'' (Some other_options) empty_factory))
            [GetOrCreate ''ai-gemini'' None, Execute 0 failing 100,
             GetOrCreate ''ai-openai'' None, ResetAll 200])) = 0
   \<and> options (objects
         (foldl (use (\<lambda>w. w)) (snd (getOrCreate ''ai-openai'' (Some other_options) empty_factory))
            [GetOrCreate ''ai-gemini'' None, Execute 0 failing 100,
             GetOrCreate ''ai-openai'' None, ResetAll 200]) ! 0)
       = \<lparr>name = ''ai-openai'', failureThreshold = 1, successThreshold = 7,
          timeout = 1, resetTimeout = 10\<rparr>
   \<and> options (objects
         (foldl (use (\<lambda>w. w)) (snd (getOrCreate ''ai-openai'' (Some mixed_options) empty_factory))
            [GetOrCreate ''ai-openai'' (Some other_options), Reset ''ai-openai'' 300]) ! 0)
       = \<lparr>name = ''ai-openai'', failureThreshold = 3, successThreshold = 2,
          timeout = 30000, resetTimeout = 500\<rparr>"
  using getOrCreate_returns_first_instance_with_first_options[of empty_factory "''ai-openai''"
      "Some ai_options" "\<lambda>w. w" "Some other_options"
      "[GetOrCreate ''ai-gemini'' None, Execute 0 failing 100,
        GetOrCreate ''ai-openai'' None, ResetAll 200]"]
    getOrCreate_returns_first_instance_with_first_options[of empty_factory "''ai-openai''"
      None "\<lambda>w. w" "Some mixed_options"
      "[GetOrCreate ''ai-openai'' (Some other_options), Reset ''ai-openai'' 300]"]
  by (simp add: empty_factory_def ai_options_def other_options_def mixed_options_def
        getOrCreate_def nullish_simps Let_def)

section \<open>Provider resolution\<close>

lemma cx_service_eq:
  "cx_service = \<lparr>openaiProvider = cx_openai, anthropicProvider = cx_anthropic,
      geminiProvider = cx_gemini, providers = [(OPENAI, cx_openai), (GEMINI, cx_gemini)],
      defaultProvider = OPENAI, responseCache = (\<lambda>k. None)\<rparr>"
  by (simp add: cx_service_def onModuleInit_def new_AIService_def Let_def
        cx_openai_def cx_anthropic_def cx_gemini_def)

text \<open>
  Claim C7 fails where it says which adapter is returned when the preferred one is not
  registered.  With OpenAI and Gemini registered and Anthropic preferred, the adapter with
  the highest priority in the order Gemini, OpenAI, Anthropic is Gemini's;
  \<open>getProvider\<close> returns OpenAI's, the first one registered.
\<close>

theorem getProvider_fallback_is_not_highest_priority:
  "map_of (providers cx_service) ANTHROPIC = None
   \<and> highest_priority_available cx_service = Some cx_gemini
   \<and> getProvider cx_service (Some ANTHROPIC) = Inr cx_openai
   \<and> getProvider cx_service (Some ANTHROPIC) \<noteq> Inr cx_gemini"
proof -
  have "defaultModel cx_openai \<noteq> defaultModel cx_gemini"
    by (simp add: cx_openai_def cx_gemini_def)
  then have "cx_openai \<noteq> cx_gemini" by auto
  then show ?thesis
    by (simp add: cx_service_eq getProvider_def highest_priority_available_def)
qed

text \<open>
  Claim C7, amended.  \<open>onModuleInit\<close> registers the available adapters in the order
  OpenAI, Anthropic, Gemini, and keeps OpenAI as default when it is registered; otherwise
  the default becomes the first registered of Gemini, OpenAI, Anthropic.  \<open>getProvider\<close>
  returns the adapter registered under the preferred name (with no preference: under the
  default name) when there is one; when there is none it returns the first registered
  adapter, in the order OpenAI, Anthropic, Gemini; when no adapter is registered it throws
  \<open>Error('No AI provider available')\<close>.
\<close>

theorem getProvider_resolution:
  "providers (onModuleInit (new_AIService openai anthropic gemini))
     = (if isAvailable openai then [(OPENAI, openai)] else [])
       @ (if isAvailable anthropic then [(ANTHROPIC, anthropic)] else [])
       @ (if isAvailable gemini then [(GEMINI, gemini)] else [])
   \<and> defaultProvider (onModuleInit (new_AIService openai anthropic gemini))
     = (if isAvailable openai then OPENAI
        else if isAvailable gemini then GEMINI
        else if isAvailable anthropic then ANTHROPIC
        else OPENAI)
   \<and> getProvider (onModuleInit (new_AIService openai anthropic gemini)) preferred
     = (let s = onModuleInit (new_AIService openai anthropic gemini);
            providerKey = (case preferred of None \<Rightarrow> defaultProvider s | Some p \<Rightarrow> p)
        in case map_of (providers s) providerKey of
             Some registered_adapter \<Rightarrow> Inr registered_adapter
           | None \<Rightarrow>
               if isAvailable openai then Inr openai
               else if isAvailable anthropic then Inr anthropic
               else if isAvailable gemini then Inr gemini
               else Inl (Error None ''No AI provider available''))"
  by (cases "isAvailable openai"; cases "isAvailable anthropic"; cases "isAvailable gemini";
      cases preferred)
     (simp_all add: onModuleInit_def new_AIService_def getProvider_def priorityOrder_def Let_def
        split: option.splits)

section \<open>Context truncation\<close>

lemma estimateTokens_provider:
  "getProvider s None = Inr p \<Longrightarrow>
   estimateTokens s msgs = Inr (countTokens p (join_lines (map ChatMessage.content msgs)) None)"
  by (simp add: estimateTokens_def AIService_countTokens_def)

lemma add_from_end_suffix:
  assumes prov: "getProvider s None = Inr p"
  shows "i \<le> length mid \<Longrightarrow>
   (\<forall>j<length mid - i. \<exists>n. test_estimate s sys mid lst j = Inr n \<and> lte n B) \<Longrightarrow>
   \<exists>k. length mid - i \<le> k \<and> k \<le> length mid
     \<and> add_from_end s B sys mid lst i (sys # drop i mid) = Inr (sys # drop (length mid - k) mid)
     \<and> (\<forall>j<k. \<exists>n. test_estimate s sys mid lst j = Inr n \<and> lte n B)
     \<and> (k < length mid \<longrightarrow> (\<exists>n. test_estimate s sys mid lst k = Inr n \<and> \<not> lte n B))"
proof (induction i)
  case 0
  then show ?case by (intro exI[of _ "length mid"]) simp
next
  case (Suc i)
  let ?j = "length mid - Suc i"
  have i: "i < length mid" using Suc.prems by simp
  have idx: "length mid - ?j = Suc i" "length mid - ?j - 1 = i" using i by simp_all
  let ?test = "[sys] @ drop 1 (sys # drop (Suc i) mid) @ [mid ! i, lst]"
  obtain n where n: "estimateTokens s ?test = Inr n"
    using estimateTokens_provider[OF prov] by blast
  have te: "test_estimate s sys mid lst ?j = Inr n"
    using n by (simp add: test_estimate_def idx)
  show ?case
  proof (cases "lte n B")
    case True
    have step: "add_from_end s B sys mid lst (Suc i) (sys # drop (Suc i) mid)
        = add_from_end s B sys mid lst i (sys # drop i mid)"
      using n True i by (simp add: Cons_nth_drop_Suc)
    have "\<forall>j<length mid - i. \<exists>n. test_estimate s sys mid lst j = Inr n \<and> lte n B"
    proof (intro allI impI)
      fix j assume j: "j < length mid - i"
      show "\<exists>n. test_estimate s sys mid lst j = Inr n \<and> lte n B"
      proof (cases "j < ?j")
        case True
        then show ?thesis using Suc.prems by simp
      next
        case False
        then have "j = ?j" using j by simp
        then show ?thesis using te True by simp
      qed
    qed
    then obtain k where k: "length mid - i \<le> k" "k \<le> length mid"
     "add_from_end s B sys mid lst i (sys # drop i mid) = Inr (sys # drop (length mid - k) mid)"
     "\<forall>j<k. \<exists>n. test_estimate s sys mid lst j = Inr n \<and> lte n B"
     "k < length mid \<longrightarrow> (\<exists>n. test_estimate s sys mid lst k = Inr n \<and> \<not> lte n B)"
      using Suc.IH i by auto
    show ?thesis
      using k step by (intro exI[of _ k]) auto
  next
    case False
    have stop: "add_from_end s B sys mid lst (Suc i) (sys # drop (Suc i) mid)
        = Inr (sys # drop (Suc i) mid)"
      using n False by simp
    show ?thesis
      using stop te False Suc.prems i by (intro exI[of _ ?j]) (simp add: idx)
  qed
qed

lemma truncateToFit_over_budget:
  assumes prov: "getProvider s None = Inr p"
    and over: "\<not> lte (countTokens p (join_lines (map ChatMessage.content (sys # mid @ [lst]))) None)
           (minus_number (getContextLimit m) (case reserve of None \<Rightarrow> 4096 | Some r \<Rightarrow> r))"
  shows "truncateToFit s (sys # mid @ [lst]) m reserve =
     (case add_from_end s
             (minus_number (getContextLimit m) (case reserve of None \<Rightarrow> 4096 | Some r \<Rightarrow> r))
             sys mid lst (length mid) [sys] of
        Inl e \<Rightarrow> Inl e
      | Inr truncated \<Rightarrow> Inr (map Some (truncated @ [lst])))"
proof (cases mid)
  case Nil
  then show ?thesis
    using over by (simp add: truncateToFit_def estimateTokens_provider[OF prov])
next
  case (Cons a as)
  show ?thesis
    using over unfolding Cons
    by (simp add: truncateToFit_def estimateTokens_provider[OF prov] Let_def
          butlast_append del: add_from_end.simps cong: sum.case_cong)
qed

text \<open>
  A list of two or more messages: a system message, interior messages and a final message.
  It is returned as it is when its estimate is within the budget.  Otherwise the system
  message, the \<open>k\<close> newest interior messages in their order and the final message are
  returned, for a \<open>k\<close> such that each of the \<open>k\<close> tests of the loop was within the budget
  (\<open>\<le>\<close>), and the next one, if an older interior message is left, was not.  For a model
  name that \<open>Object.prototype\<close> has a member for, the budget is \<open>NaN\<close>, no test is within
  it, and the system message and the final message are returned.
\<close>

lemma truncateToFit_keeps_newest_suffix:
  assumes prov: "getProvider s None = Inr p"
  shows "\<exists>k\<le>length mid.
     truncateToFit s (sys # mid @ [lst]) m reserve =
       (if lte (countTokens p (join_lines (map ChatMessage.content (sys # mid @ [lst]))) None)
             (minus_number (getContextLimit m) (case reserve of None \<Rightarrow> 4096 | Some r \<Rightarrow> r))
        then Inr (map Some (sys # mid @ [lst]))
        else Inr (map Some (sys # drop (length mid - k) mid @ [lst])))
     \<and> (\<forall>j<k. \<exists>n. test_estimate s sys mid lst j = Inr n
            \<and> lte n (minus_number (getContextLimit m)
                       (case reserve of None \<Rightarrow> 4096 | Some r \<Rightarrow> r)))
     \<and> (k < length mid \<longrightarrow>
          (\<exists>n. test_estimate s sys mid lst k = Inr n
            \<and> \<not> lte n (minus_number (getContextLimit m)
                         (case reserve of None \<Rightarrow> 4096 | Some r \<Rightarrow> r))))"
proof -
  define B where
    "B = minus_number (getContextLimit m) (case reserve of None \<Rightarrow> 4096 | Some r \<Rightarrow> r)"
  have "\<exists>k. length mid - length mid \<le> k \<and> k \<le> length mid
     \<and> add_from_end s B sys mid lst (length mid) (sys # drop (length mid) mid)
         = Inr (sys # drop (length mid - k) mid)
     \<and> (\<forall>j<k. \<exists>n. test_estimate s sys mid lst j = Inr n \<and> lte n B)
     \<and> (k < length mid \<longrightarrow> (\<exists>n. test_estimate s sys mid lst k = Inr n \<and> \<not> lte n B))"
    by (rule add_from_end_suffix[OF prov]) simp_all
  then obtain k where k: "k \<le> length mid"
     "add_from_end s B sys mid lst (length mid) [sys] = Inr (sys # drop (length mid - k) mid)"
     "\<forall>j<k. \<exists>n. test_estimate s sys mid lst j = Inr n \<and> lte n B"
     "k < length mid \<longrightarrow> (\<exists>n. test_estimate s sys mid lst k = Inr n \<and> \<not> lte n B)"
    by auto
  show ?thesis
  proof (cases "lte (countTokens p (join_lines (map ChatMessage.content (sys # mid @ [lst]))) None) B")
    case True
    then have "truncateToFit s (sys # mid @ [lst]) m reserve = Inr (map Some (sys # mid @ [lst]))"
      by (simp add: truncateToFit_def estimateTokens_provider[OF prov] B_def)
    then show ?thesis using True k unfolding B_def by (intro exI[of _ k]) simp
  next
    case False
    then have "truncateToFit s (sys # mid @ [lst]) m reserve
        = Inr (map Some (sys # drop (length mid - k) mid @ [lst]))"
      using truncateToFit_over_budget[OF prov, of sys mid lst m reserve] k(2)
      by (simp add: B_def)
    then show ?thesis using False k unfolding B_def by (intro exI[of _ k]) simp
  qed
qed

text \<open>
  With an estimate that counts a quarter of the length (the Anthropic and Gemini adapters,
  and the OpenAI adapter when its tokenizer fails), the order of the messages does not
  matter: the estimate the loop tests is that of the system message, the messages kept
  so far with the candidate added, and the final message, as they would be returned.
\<close>

lemma length_join_lines:
  "length (join_lines xs) = sum_list (map length xs) + (length xs - 1)"
  by (induction xs rule: join_lines.induct) simp_all

lemma test_estimate_quarter_length:
  assumes prov: "getProvider s None = Inr p" and q: "countTokens p = quarter_length"
    and j: "j < length mid"
  shows "test_estimate s sys mid lst j
     = estimateTokens s (sys # drop (length mid - j - 1) mid @ [lst])"
proof -
  have n: "length mid - j - 1 < length mid" using j by simp
  have sn: "Suc (length mid - j - 1) = length mid - j" using j by simp
  have d: "drop (length mid - j - 1) mid
      = mid ! (length mid - j - 1) # drop (length mid - j) mid"
    using Cons_nth_drop_Suc[OF n] sn by simp
  show ?thesis
    unfolding test_estimate_def d
    by (simp add: estimateTokens_provider[OF prov] q quarter_length_def length_join_lines)
qed

lemma only_gemini_provider: "getProvider only_gemini None = Inr cx_gemini"
  by (simp add: only_gemini_def onModuleInit_def new_AIService_def getProvider_def
        priorityOrder_def Let_def cx_openai_def cx_anthropic_def cx_gemini_def)

text \<open>
  An example of lemma \<open>truncateToFit_keeps_newest_suffix\<close>, with the Gemini adapter's
  estimate and a budget of 5 tokens: keeping \<open>ccc\<close> tests 4 tokens, keeping \<open>bbb\<close> as
  well tests exactly 5 and is accepted, keeping \<open>aaa\<close> too would test 6.
\<close>

lemma truncateToFit_boundary_example:
  "truncateToFit only_gemini
     [\<lparr>role = System, ChatMessage.content = ''ssss''\<rparr>,
      \<lparr>role = User, ChatMessage.content = ''aaa''\<rparr>,
      \<lparr>role = Assistant, ChatMessage.content = ''bbb''\<rparr>,
      \<lparr>role = User, ChatMessage.content = ''ccc''\<rparr>,
      \<lparr>role = User, ChatMessage.content = ''uuuu''\<rparr>]
     ''gemini-1.5-flash'' (Some 999995)
   = Inr [Some \<lparr>role = System, ChatMessage.content = ''ssss''\<rparr>,
          Some \<lparr>role = Assistant, ChatMessage.content = ''bbb''\<rparr>,
          Some \<lparr>role = User, ChatMessage.content = ''ccc''\<rparr>,
          Some \<lparr>role = User, ChatMessage.content = ''uuuu''\<rparr>]"
  by (simp add: truncateToFit_def estimateTokens_def AIService_countTokens_def
        only_gemini_provider cx_gemini_def quarter_length_def getContextLimit_def
        MODEL_CONTEXT_LIMITS_def minus_number_def lte_def numeral_3_eq_3)

text \<open>
  The model name \<open>constructor\<close> is not in the table, but every object has a member of
  that name: the budget is \<open>NaN\<close>, the estimate of 3 tokens is not within it, and the
  interior message is dropped.
\<close>

lemma truncateToFit_inherited_member_example:
  "truncateToFit only_gemini
     [\<lparr>role = System, ChatMessage.content = ''ssss''\<rparr>,
      \<lparr>role = User, ChatMessage.content = ''aaa''\<rparr>,
      \<lparr>role = User, ChatMessage.content = ''uuuu''\<rparr>]
     ''constructor'' None
   = Inr [Some \<lparr>role = System, ChatMessage.content = ''ssss''\<rparr>,
          Some \<lparr>role = User, ChatMessage.content = ''uuuu''\<rparr>]"
  by (simp add: truncateToFit_def estimateTokens_def AIService_countTokens_def
        only_gemini_provider cx_gemini_def quarter_length_def getContextLimit_def
        MODEL_CONTEXT_LIMITS_def Object_prototype_members_def minus_number_def lte_def)

text \<open>
  Claim C3 at a list of one message.  (With two or more messages the function does what
  the claim says: lemma \<open>truncateToFit_keeps_newest_suffix\<close>.)  The list is not empty,
  its first element is the system message and its last element is the newest message.
  Its estimate is 2 tokens, the budget is 1, so the list is not returned as it is: the
  result is the system message followed by \<open>undefined\<close>, where the claim has the
  system message and the final message of the list and nothing else.
\<close>

theorem truncateToFit_single_message_yields_undefined:
  "truncateToFit only_gemini [\<lparr>role = System, ChatMessage.content = ''aaaaaaaa''\<rparr>]
     ''gemini-1.5-flash'' (Some 999999)
   = Inr [Some \<lparr>role = System, ChatMessage.content = ''aaaaaaaa''\<rparr>, None]"
  by (simp add: truncateToFit_def estimateTokens_def AIService_countTokens_def
        only_gemini_provider cx_gemini_def quarter_length_def getContextLimit_def
        MODEL_CONTEXT_LIMITS_def minus_number_def lte_def)

section \<open>The retry loop and the response cache\<close>

lemma try_operation_eq:
  "try_operation now action b w =
     (case fst (action w) of
        Inr v \<Rightarrow> (Inr v, snd (onSuccess (now (snd (action w))) b), snd (action w))
      | Inl e \<Rightarrow>
          (case fst (onFailure (now (snd (action w))) b) of
             None \<Rightarrow> Inl e | Some thrown \<Rightarrow> Inl thrown,
           snd (onFailure (now (snd (action w))) b), snd (action w)))"
  by (cases "fst (action w)")
     (simp_all add: prod_eq_iff try_operation_result try_operation_breaker try_operation_world)

lemma breaker_execute_cases:
  "breaker_execute rt adapter request cb s =
     (if state (objects (factory s) ! cb) = OPEN
         \<and> clock rt (world s) < nextRetryTime (objects (factory s) ! cb)
      then (if valid_time (nextRetryTime (objects (factory s) ! cb))
            then Inl (CircuitBreakerOpenError (name (options (objects (factory s) ! cb)))
                  (nextRetryTime (objects (factory s) ! cb)))
            else Inl RangeError, s)
      else
        (let b = (if state (objects (factory s) ! cb) = OPEN
                  then (objects (factory s) ! cb)\<lparr>state := HALF_OPEN, successCount := 0\<rparr>
                  else objects (factory s) ! cb)
         in case complete adapter request (world s) of
              (Inr r, w') \<Rightarrow>
                (Inr r, s\<lparr>factory := (factory s)\<lparr>objects :=
                            (objects (factory s))[cb := snd (onSuccess (clock rt w') b)]\<rparr>,
                          world := w', trace := trace s @ [ProviderInvoked]\<rparr>)
            | (Inl e, w') \<Rightarrow>
                (case fst (onFailure (clock rt w') b) of
                   None \<Rightarrow> Inl e | Some thrown \<Rightarrow> Inl thrown,
                 s\<lparr>factory := (factory s)\<lparr>objects :=
                            (objects (factory s))[cb := snd (onFailure (clock rt w') b)]\<rparr>,
                          world := w', trace := trace s @ [ProviderInvoked]\<rparr>)))"
  by (cases "complete adapter request (world s)")
     (auto simp: breaker_execute_def execute_def transitionTo_HALF_OPEN try_operation_eq Let_def
        split: sum.splits)

lemma invocations_simps:
  "invocations [] = 0"
  "invocations (t @ [ProviderInvoked]) = Suc (invocations t)"
  "invocations (t @ [Slept d]) = invocations t"
  by (simp_all add: invocations_def)

lemma breaker_execute_frame:
  assumes "breaker_execute rt adapter request cb s = (res, s1)"
  shows "responseCache s1 = responseCache s" and "providers s1 = providers s"
    and "defaultProvider s1 = defaultProvider s"
    and "invocations (trace s1) \<le> Suc (invocations (trace s))"
  using assms
  by (auto simp: breaker_execute_cases Let_def invocations_simps
        split: if_splits prod.splits sum.splits)

lemma breaker_execute_success_trace:
  "breaker_execute rt adapter request cb s = (Inr resp, s1) \<Longrightarrow>
   trace s1 = trace s @ [ProviderInvoked]"
  by (auto simp: breaker_execute_cases Let_def split: if_splits prod.splits sum.splits)

lemma breaker_execute_thrown_by_adapter:
  "breaker_execute rt adapter request cb s = (Inl err, s1) \<Longrightarrow>
   isNonRetryableError err \<Longrightarrow>
   trace s1 = trace s @ [ProviderInvoked]"
  by (auto simp: breaker_execute_cases Let_def RangeError_def
        split: if_splits prod.splits sum.splits)

lemma attempts_success:
  assumes "attempt \<le> mr" and "breaker_execute rt adapter request cb s = (Inr resp, s1)"
  shows "fst (attempts rt request opts adapter uc mr cb attempt le s) = Inr resp"
    and "trace (snd (attempts rt request opts adapter uc mr cb attempt le s)) = trace s1"
    and "factory (snd (attempts rt request opts adapter uc mr cb attempt le s)) = factory s1"
    and "providers (snd (attempts rt request opts adapter uc mr cb attempt le s)) = providers s1"
    and "responseCache (snd (attempts rt request opts adapter uc mr cb attempt le s))
          = (if uc \<and> stream request \<noteq> Some True
             then (responseCache s1)(getCacheKey rt request \<mapsto>
                    \<lparr>response = resp, timestamp = clock rt (world s1)\<rparr>)
             else responseCache s1)"
  using assms
  by (subst attempts.simps; auto simp add: Let_def split: option.splits)+

lemma attempts_stop:
  "attempt \<le> mr \<Longrightarrow> breaker_execute rt adapter request cb s = (Inl err, s1) \<Longrightarrow>
   instanceof_CircuitBreakerOpenError err \<or> isNonRetryableError err \<Longrightarrow>
   attempts rt request opts adapter uc mr cb attempt le s = (Inl err, s1)"
  by (subst attempts.simps) simp

lemma attempts_over:
  "mr < attempt \<Longrightarrow>
   attempts rt request opts adapter uc mr cb attempt le s
     = (Inl (case le of None \<Rightarrow> Error None ''AI completion failed after retries''
             | Some e \<Rightarrow> e), s)"
  by (subst attempts.simps) simp

lemma attempts_retry:
  "attempt < mr \<Longrightarrow> breaker_execute rt adapter request cb s = (Inl err, s1) \<Longrightarrow>
   \<not> instanceof_CircuitBreakerOpenError err \<Longrightarrow> \<not> isNonRetryableError err \<Longrightarrow>
   attempts rt request opts adapter uc mr cb attempt le s
     = attempts rt request opts adapter uc mr cb (attempt + 1) (Some err)
         (s1\<lparr>world := sleep rt (min (1000 * 2 ^ nat (attempt - 1)) 10000) (world s1),
            trace := trace s1 @ [Slept (min (1000 * 2 ^ nat (attempt - 1)) 10000)]\<rparr>)"
  by (subst attempts.simps) (simp add: Let_def)

lemma attempts_exhausted:
  "attempt = mr \<Longrightarrow> breaker_execute rt adapter request cb s = (Inl err, s1) \<Longrightarrow>
   \<not> instanceof_CircuitBreakerOpenError err \<Longrightarrow> \<not> isNonRetryableError err \<Longrightarrow>
   attempts rt request opts adapter uc mr cb attempt le s = (Inl err, s1)"
  by (subst attempts.simps) (simp add: Let_def attempts_over)

lemma attempts_invocations:
  "invocations (trace (snd (attempts rt request opts adapter uc mr cb attempt le s)))
     \<le> invocations (trace s) + nat (mr + 1 - attempt)"
proof (induction rt request opts adapter uc mr cb attempt le s rule: attempts.induct)
  case (1 rt request opts adapter uc mr cb attempt le s)
  show ?case
  proof (cases "attempt \<le> mr")
    case False
    then show ?thesis by (simp add: attempts_over)
  next
    case True
    obtain res s1 where be: "breaker_execute rt adapter request cb s = (res, s1)"
      by (cases "breaker_execute rt adapter request cb s")
    have inv1: "invocations (trace s1) \<le> Suc (invocations (trace s))"
      using breaker_execute_frame(4)[OF be] .
    show ?thesis
    proof (cases res)
      case (Inr resp)
      then show ?thesis using attempts_success(2)[OF True be[unfolded Inr]] inv1 True by simp
    next
      case (Inl err)
      show ?thesis
      proof (cases "instanceof_CircuitBreakerOpenError err \<or> isNonRetryableError err")
        case stop: True
        show ?thesis
          using attempts_stop[OF True be[unfolded Inl] stop] inv1 True by simp
      next
        case retry: False
        define s2 where "s2 = (if attempt < mr
          then let delay = min (1000 * 2 ^ nat (attempt - 1)) 10000
               in s1\<lparr>world := sleep rt delay (world s1), trace := trace s1 @ [Slept delay]\<rparr>
          else s1)"
        have eq: "attempts rt request opts adapter uc mr cb attempt le s
            = attempts rt request opts adapter uc mr cb (attempt + 1) (Some err) s2"
          using True be Inl retry by (subst attempts.simps) (simp add: s2_def Let_def)
        have inv2: "invocations (trace s2) = invocations (trace s1)"
          by (simp add: s2_def Let_def invocations_simps)
        have "invocations (trace (snd (attempts rt request opts adapter uc mr cb (attempt + 1)
              (Some err) s2))) \<le> invocations (trace s2) + nat (mr + 1 - (attempt + 1))"
          using "1.IH"[OF True be[symmetric] Inl retry s2_def] .
        then show ?thesis using eq inv1 inv2 True by simp
      qed
    qed
  qed
qed

lemma runtime_usage_update_simps:
  "breaker_execute (rt\<lparr>usage_log := u, logger_error := l\<rparr>) = breaker_execute rt"
  "getCacheKey (rt\<lparr>usage_log := u, logger_error := l\<rparr>) = getCacheKey rt"
  "cached_response (rt\<lparr>usage_log := u, logger_error := l\<rparr>) = cached_response rt"
  by (auto simp: breaker_execute_def getCacheKey_def cached_response_def fun_eq_iff
        split: option.splits)

lemma attempts_success_eq:
  "attempt \<le> mr \<Longrightarrow> breaker_execute rt adapter request cb s = (Inr resp, s1) \<Longrightarrow>
   attempts rt request opts adapter uc mr cb attempt le s =
     (let s2 = (if uc \<and> stream request \<noteq> Some True
                then s1\<lparr>responseCache := (responseCache s1)
                        (getCacheKey rt request \<mapsto>
                           \<lparr>response = resp, timestamp = clock rt (world s1)\<rparr>)\<rparr>
                else s1);
          s3 = (case CompleteOptions.projectId opts of
                  None \<Rightarrow> s2
                | Some pid \<Rightarrow>
                    if pid \<noteq> [] then
                      s2\<lparr>world := trackUsage rt
                          \<lparr>UsageRecord.projectId = pid,
                           UsageRecord.userId = CompleteOptions.userId opts,
                           UsageRecord.model = AICompletionResponse.model resp,
                           UsageRecord.promptTokens = TokenUsage.promptTokens (usage resp),
                           UsageRecord.completionTokens = TokenUsage.completionTokens (usage resp),
                           cost = estimatedCost (usage resp),
                           UsageRecord.operation =
                             (case CompleteOptions.operation opts of None \<Rightarrow> ''completion''
                              | Some l \<Rightarrow> l)\<rparr>
                          (world s2)\<rparr>
                    else s2)
      in (Inr resp, s3))"
  by (subst attempts.simps) (simp add: Let_def)

lemma attempts_usage_independent:
  "fst (attempts (rt\<lparr>usage_log := u, logger_error := l\<rparr>) request opts adapter uc mr cb
          attempt le s)
     = fst (attempts rt request opts adapter uc mr cb attempt le s)
   \<and> (snd (attempts (rt\<lparr>usage_log := u, logger_error := l\<rparr>) request opts adapter uc mr cb
          attempt le s))\<lparr>world := w\<rparr>
     = (snd (attempts rt request opts adapter uc mr cb attempt le s))\<lparr>world := w\<rparr>"
proof (induction rt request opts adapter uc mr cb attempt le s rule: attempts.induct)
  case (1 rt request opts adapter uc mr cb attempt le s)
  let ?rt = "rt\<lparr>usage_log := u, logger_error := l\<rparr>"
  show ?case
  proof (cases "attempt \<le> mr")
    case False
    then show ?thesis by (simp add: attempts_over)
  next
    case True
    obtain res s1 where be: "breaker_execute rt adapter request cb s = (res, s1)"
      by (cases "breaker_execute rt adapter request cb s")
    have be': "breaker_execute ?rt adapter request cb s = (res, s1)"
      using be by (simp add: runtime_usage_update_simps)
    show ?thesis
    proof (cases res)
      case (Inr resp)
      show ?thesis
        using attempts_success_eq[OF True be[unfolded Inr]]
          attempts_success_eq[OF True be'[unfolded Inr]]
        by (simp add: Let_def runtime_usage_update_simps split: option.splits)
    next
      case (Inl err)
      show ?thesis
      proof (cases "instanceof_CircuitBreakerOpenError err \<or> isNonRetryableError err")
        case stop: True
        show ?thesis
          using attempts_stop[OF True be[unfolded Inl] stop]
            attempts_stop[OF True be'[unfolded Inl] stop] by simp
      next
        case retry: False
        define s2 where "s2 = (if attempt < mr
          then let delay = min (1000 * 2 ^ nat (attempt - 1)) 10000
               in s1\<lparr>world := sleep rt delay (world s1), trace := trace s1 @ [Slept delay]\<rparr>
          else s1)"
        have eq: "attempts rt request opts adapter uc mr cb attempt le s
            = attempts rt request opts adapter uc mr cb (attempt + 1) (Some err) s2"
          using True be Inl retry by (subst attempts.simps) (simp add: s2_def Let_def)
        have eq': "attempts ?rt request opts adapter uc mr cb attempt le s
            = attempts ?rt request opts adapter uc mr cb (attempt + 1) (Some err) s2"
          using True be' Inl retry by (subst attempts.simps) (simp add: s2_def Let_def)
        show ?thesis
          unfolding eq eq' using "1.IH"[OF True be[symmetric] Inl retry s2_def] .
      qed
    qed
  qed
qed

lemma AIService_complete_usage_independent:
  "fst (AIService_complete (rt\<lparr>usage_log := u, logger_error := l\<rparr>) request opts s)
     = fst (AIService_complete rt request opts s)
   \<and> (snd (AIService_complete (rt\<lparr>usage_log := u, logger_error := l\<rparr>) request opts s))
        \<lparr>world := w\<rparr>
     = (snd (AIService_complete rt request opts s))\<lparr>world := w\<rparr>"
  by (simp add: AIService_complete_def Let_def runtime_usage_update_simps
        attempts_usage_independent split: sum.splits option.splits prod.splits)

lemma getProvider_nonempty:
  "getProvider s preferred = Inr a \<Longrightarrow> providers s \<noteq> []"
  by (auto simp: getProvider_def Let_def split: option.splits list.splits)

lemma getProvider_total:
  "providers s \<noteq> [] \<Longrightarrow> \<exists>a. getProvider s preferred = Inr a"
  by (cases "providers s") (auto simp: getProvider_def Let_def split: option.splits)

lemma attempts_stores:
  "uc \<and> stream request \<noteq> Some True \<Longrightarrow>
   attempts rt request opts adapter uc mr cb attempt le s = (Inr r, s') \<Longrightarrow>
   (\<exists>ts. responseCache s' (getCacheKey rt request) = Some \<lparr>response = r, timestamp = ts\<rparr>)"
proof (induction rt request opts adapter uc mr cb attempt le s rule: attempts.induct)
  case (1 rt request opts adapter uc mr cb attempt le s)
  show ?case
  proof (cases "attempt \<le> mr")
    case False
    then show ?thesis using "1.prems" by (simp add: attempts_over)
  next
    case True
    obtain res s1 where be: "breaker_execute rt adapter request cb s = (res, s1)"
      by (cases "breaker_execute rt adapter request cb s")
    show ?thesis
    proof (cases res)
      case (Inr resp)
      show ?thesis
        using attempts_success_eq[OF True be[unfolded Inr], of opts uc le] "1.prems"
        by (auto simp: Let_def split: option.splits if_splits)
    next
      case (Inl err)
      show ?thesis
      proof (cases "instanceof_CircuitBreakerOpenError err \<or> isNonRetryableError err")
        case stop: True
        show ?thesis
          using attempts_stop[OF True be[unfolded Inl] stop, of opts uc le] "1.prems" by simp
      next
        case retry: False
        define s2 where "s2 = (if attempt < mr
          then let delay = min (1000 * 2 ^ nat (attempt - 1)) 10000
               in s1\<lparr>world := sleep rt delay (world s1), trace := trace s1 @ [Slept delay]\<rparr>
          else s1)"
        have eq: "attempts rt request opts adapter uc mr cb attempt le s
            = attempts rt request opts adapter uc mr cb (attempt + 1) (Some err) s2"
          using True be Inl retry by (subst attempts.simps) (simp add: s2_def Let_def)
        show ?thesis
          using "1.IH"[OF True be[symmetric] Inl retry s2_def "1.prems"(1)] "1.prems"(2) eq
          by simp
      qed
    qed
  qed
qed

lemma attempts_providers:
  "providers (snd (attempts rt request opts adapter uc mr cb attempt le s)) = providers s"
proof (induction rt request opts adapter uc mr cb attempt le s rule: attempts.induct)
  case (1 rt request opts adapter uc mr cb attempt le s)
  show ?case
  proof (cases "attempt \<le> mr")
    case False
    then show ?thesis by (simp add: attempts_over)
  next
    case True
    obtain res s1 where be: "breaker_execute rt adapter request cb s = (res, s1)"
      by (cases "breaker_execute rt adapter request cb s")
    have p1: "providers s1 = providers s" using breaker_execute_frame(2)[OF be] .
    show ?thesis
    proof (cases res)
      case (Inr resp)
      show ?thesis
        using attempts_success(4)[OF True be[unfolded Inr]] p1 by simp
    next
      case (Inl err)
      show ?thesis
      proof (cases "instanceof_CircuitBreakerOpenError err \<or> isNonRetryableError err")
        case stop: True
        show ?thesis
          using attempts_stop[OF True be[unfolded Inl] stop] p1 by simp
      next
        case retry: False
        define s2 where "s2 = (if attempt < mr
          then let delay = min (1000 * 2 ^ nat (attempt - 1)) 10000
               in s1\<lparr>world := sleep rt delay (world s1), trace := trace s1 @ [Slept delay]\<rparr>
          else s1)"
        have eq: "attempts rt request opts adapter uc mr cb attempt le s
            = attempts rt request opts adapter uc mr cb (attempt + 1) (Some err) s2"
          using True be Inl retry by (subst attempts.simps) (simp add: s2_def Let_def)
        have p2: "providers s2 = providers s1" by (simp add: s2_def Let_def)
        show ?thesis
          using "1.IH"[OF True be[symmetric] Inl retry s2_def] eq p1 p2 by simp
      qed
    qed
  qed
qed

lemma AIService_complete_providers:
  "providers (snd (AIService_complete rt request opts s)) = providers s"
  by (simp add: AIService_complete_def Let_def attempts_providers
        split: sum.splits option.splits prod.splits)

lemma AIService_complete_miss:
  "getProvider s (provider opts) = Inr a \<Longrightarrow>
   cached_response rt request (case useCache opts of None \<Rightarrow> True | Some u \<Rightarrow> u) s = None \<Longrightarrow>
   getOrCreate
     (''ai-'' @ AIProvider_value (case provider opts of None \<Rightarrow> defaultProvider s | Some p \<Rightarrow> p))
     (Some ai_options) (factory s) = (cb, f) \<Longrightarrow>
   AIService_complete rt request opts s
     = attempts rt request opts a (case useCache opts of None \<Rightarrow> True | Some u \<Rightarrow> u)
         (case maxRetries opts of None \<Rightarrow> 3 | Some n \<Rightarrow> n) cb 1 None (s\<lparr>factory := f\<rparr>)"
  by (simp add: AIService_complete_def Let_def)

lemma AIService_complete_invocations:
  "invocations (trace (snd (AIService_complete rt request opts s)))
     \<le> invocations (trace s) + nat (case maxRetries opts of None \<Rightarrow> 3 | Some n \<Rightarrow> n)"
proof (cases "getProvider s (provider opts)")
  case (Inl e)
  then show ?thesis by (simp add: AIService_complete_def)
next
  case (Inr a)
  show ?thesis
  proof (cases "cached_response rt request (case useCache opts of None \<Rightarrow> True | Some u \<Rightarrow> u) s")
    case (Some h)
    then show ?thesis using Inr by (simp add: AIService_complete_def Let_def)
  next
    case None
    obtain cb f where g: "getOrCreate
        (''ai-'' @ AIProvider_value
           (case provider opts of None \<Rightarrow> defaultProvider s | Some p \<Rightarrow> p))
        (Some ai_options) (factory s) = (cb, f)"
      by (cases "getOrCreate
        (''ai-'' @ AIProvider_value
           (case provider opts of None \<Rightarrow> defaultProvider s | Some p \<Rightarrow> p))
        (Some ai_options) (factory s)")
    show ?thesis
      unfolding AIService_complete_miss[OF Inr None g]
      using attempts_invocations[of rt request opts a
          "case useCache opts of None \<Rightarrow> True | Some u \<Rightarrow> u"
          "case maxRetries opts of None \<Rightarrow> 3 | Some n \<Rightarrow> n" cb 1 None "s\<lparr>factory := f\<rparr>"]
      by simp
  qed
qed

lemma AIService_complete_stored:
  assumes uc: "useCache opts \<noteq> Some False" and st: "stream request \<noteq> Some True"
    and c: "AIService_complete rt request opts s = (Inr r, s')"
  shows "\<exists>e. responseCache s' (getCacheKey rt request) = Some e
           \<and> (response e)\<lparr>cached := Some True\<rparr> = r\<lparr>cached := Some True\<rparr>"
proof -
  have uc': "(case useCache opts of None \<Rightarrow> True | Some u \<Rightarrow> u) = True"
    using uc by (cases "useCache opts") auto
  obtain a where a: "getProvider s (provider opts) = Inr a"
    using c by (auto simp: AIService_complete_def split: sum.splits)
  show ?thesis
  proof (cases "cached_response rt request True s")
    case (Some h)
    then have "r = h" "s' = s"
      using c a uc' by (simp_all add: AIService_complete_def Let_def)
    then show ?thesis
      using Some st by (auto simp: cached_response_def split: option.splits if_splits)
  next
    case None
    obtain cb f where g: "getOrCreate
        (''ai-'' @ AIProvider_value
           (case provider opts of None \<Rightarrow> defaultProvider s | Some p \<Rightarrow> p))
        (Some ai_options) (factory s) = (cb, f)"
      by (cases "getOrCreate
        (''ai-'' @ AIProvider_value
           (case provider opts of None \<Rightarrow> defaultProvider s | Some p \<Rightarrow> p))
        (Some ai_options) (factory s)")
    have "attempts rt request opts a True
        (case maxRetries opts of None \<Rightarrow> 3 | Some n \<Rightarrow> n) cb 1 None (s\<lparr>factory := f\<rparr>)
        = (Inr r, s')"
      using c a uc' None g by (simp add: AIService_complete_def Let_def)
    then obtain ts where
      "responseCache s' (getCacheKey rt request) = Some \<lparr>response = r, timestamp = ts\<rparr>"
      using attempts_stores[of True request] st by blast
    then show ?thesis by simp
  qed
qed

lemma AIService_complete_hit:
  assumes "providers s \<noteq> []" and "useCache opts \<noteq> Some False"
    and "stream request \<noteq> Some True"
    and "responseCache s (getCacheKey rt request) = Some e"
    and "clock rt (world s) - timestamp e < CACHE_TTL_MS"
  shows "AIService_complete rt request opts s = (Inr ((response e)\<lparr>cached := Some True\<rparr>), s)"
proof -
  obtain a where a: "getProvider s (provider opts) = Inr a"
    using getProvider_total[OF assms(1)] by blast
  have uc': "(case useCache opts of None \<Rightarrow> True | Some u \<Rightarrow> u) = True"
    using assms(2) by (cases "useCache opts") auto
  show ?thesis
    using a uc' assms(3-5)
    by (simp add: AIService_complete_def Let_def cached_response_def)
qed

lemma getCacheKey_cong:
  "messages r2 = messages r1 \<Longrightarrow> AICompletionRequest.model r2 = AICompletionRequest.model r1 \<Longrightarrow>
   maxTokens r2 = maxTokens r1 \<Longrightarrow> temperature r2 = temperature r1 \<Longrightarrow>
   responseFormat r2 = responseFormat r1 \<Longrightarrow> getCacheKey rt r2 = getCacheKey rt r1"
  by (simp add: getCacheKey_def)

lemma responseCache_update_last:
  "(s :: 'w program)\<lparr>responseCache := c, world := w\<rparr> = s\<lparr>world := w, responseCache := c\<rparr>"
  "(s :: 'w program)\<lparr>responseCache := c, trace := t\<rparr> = s\<lparr>trace := t, responseCache := c\<rparr>"
  "(s :: 'w program)\<lparr>responseCache := c, factory := f\<rparr> = s\<lparr>factory := f, responseCache := c\<rparr>"
  by (cases s; simp)+

lemma breaker_execute_cache_frame:
  "breaker_execute rt adapter request cb (s\<lparr>responseCache := c\<rparr>)
    = (fst (breaker_execute rt adapter request cb s),
       (snd (breaker_execute rt adapter request cb s))\<lparr>responseCache := c\<rparr>)"
  by (simp add: breaker_execute_def responseCache_update_last split: prod.splits)

lemma attempts_cache_frame:
  "\<not> (uc \<and> stream request \<noteq> Some True) \<Longrightarrow>
   attempts rt request opts adapter uc mr cb attempt le (s\<lparr>responseCache := c\<rparr>)
    = (fst (attempts rt request opts adapter uc mr cb attempt le s),
       (snd (attempts rt request opts adapter uc mr cb attempt le s))\<lparr>responseCache := c\<rparr>)"
proof (induction rt request opts adapter uc mr cb attempt le s rule: attempts.induct)
  case (1 rt request opts adapter uc mr cb attempt le s)
  show ?case
  proof (cases "attempt \<le> mr")
    case False
    then show ?thesis by (simp add: attempts_over)
  next
    case True
    obtain res s1 where be: "breaker_execute rt adapter request cb s = (res, s1)"
      by (cases "breaker_execute rt adapter request cb s")
    have be': "breaker_execute rt adapter request cb (s\<lparr>responseCache := c\<rparr>)
        = (res, s1\<lparr>responseCache := c\<rparr>)"
      using be by (simp add: breaker_execute_cache_frame)
    show ?thesis
    proof (cases res)
      case (Inr resp)
      show ?thesis
        using attempts_success_eq[OF True be[unfolded Inr]]
          attempts_success_eq[OF True be'[unfolded Inr]] "1.prems"
        by (auto simp: Let_def split: option.splits)
    next
      case (Inl err)
      show ?thesis
      proof (cases "instanceof_CircuitBreakerOpenError err \<or> isNonRetryableError err")
        case stop: True
        show ?thesis
          using attempts_stop[OF True be[unfolded Inl] stop]
            attempts_stop[OF True be'[unfolded Inl] stop] by simp
      next
        case retry: False
        define s2 where "s2 = (if attempt < mr
          then let delay = min (1000 * 2 ^ nat (attempt - 1)) 10000
               in s1\<lparr>world := sleep rt delay (world s1), trace := trace s1 @ [Slept delay]\<rparr>
          else s1)"
        have eq: "attempts rt request opts adapter uc mr cb attempt le s
            = attempts rt request opts adapter uc mr cb (attempt + 1) (Some err) s2"
          using True be Inl retry by (subst attempts.simps) (simp add: s2_def Let_def)
        have eq': "attempts rt request opts adapter uc mr cb attempt le (s\<lparr>responseCache := c\<rparr>)
            = attempts rt request opts adapter uc mr cb (attempt + 1) (Some err)
                (s2\<lparr>responseCache := c\<rparr>)"
          using True be' Inl retry
          by (subst attempts.simps) (simp add: s2_def Let_def responseCache_update_last)
        show ?thesis
          unfolding eq eq'
          using "1.IH"[OF True be[symmetric] Inl retry s2_def "1.prems"] .
      qed
    qed
  qed
qed

lemma AIService_complete_stream_frame:
  assumes "stream request = Some True"
  shows "AIService_complete rt request opts (s\<lparr>responseCache := c\<rparr>)
    = (fst (AIService_complete rt request opts s),
       (snd (AIService_complete rt request opts s))\<lparr>responseCache := c\<rparr>)"
proof -
  let ?s = "s\<lparr>responseCache := c\<rparr>"
  have gp: "getProvider ?s p = getProvider s p" for p
    by (simp add: getProvider_def Let_def split: option.splits)
  have cr: "cached_response rt request u s' = None" for u s'
    using assms by (simp add: cached_response_def)
  show ?thesis
  proof (cases "getProvider s (provider opts)")
    case (Inl e)
    then show ?thesis by (simp add: AIService_complete_def gp)
  next
    case (Inr a)
    obtain cb f where g: "getOrCreate
        (''ai-'' @ AIProvider_value
           (case provider opts of None \<Rightarrow> defaultProvider s | Some p \<Rightarrow> p))
        (Some ai_options) (factory s) = (cb, f)"
      by (cases "getOrCreate
        (''ai-'' @ AIProvider_value
           (case provider opts of None \<Rightarrow> defaultProvider s | Some p \<Rightarrow> p))
        (Some ai_options) (factory s)")
    have g': "getOrCreate
        (''ai-'' @ AIProvider_value
           (case provider opts of None \<Rightarrow> defaultProvider ?s | Some p \<Rightarrow> p))
        (Some ai_options) (factory ?s) = (cb, f)"
      using g by (simp cong: option.case_cong)
    have a': "getProvider ?s (provider opts) = Inr a" using Inr by (simp add: gp)
    have "\<not> ((case useCache opts of None \<Rightarrow> True | Some u \<Rightarrow> u) \<and> stream request \<noteq> Some True)"
      using assms by simp
    from attempts_cache_frame[OF this, of rt opts a
        "case maxRetries opts of None \<Rightarrow> 3 | Some n \<Rightarrow> n" cb 1 None c "s\<lparr>factory := f\<rparr>"]
    show ?thesis
      unfolding AIService_complete_miss[OF Inr cr g] AIService_complete_miss[OF a' cr g']
      by (simp add: responseCache_update_last)
  qed
qed

text \<open>Facts for evaluating the examples.\<close>

lemma program_with_eq:
  "isAvailable openai \<Longrightarrow> program_with openai =
     \<lparr>openaiProvider = openai, anthropicProvider = cx_anthropic,
      geminiProvider = cx_gemini\<lparr>isAvailable := False\<rparr>,
      providers = [(OPENAI, openai)], defaultProvider = OPENAI, responseCache = (\<lambda>k. None),
      factory = empty_factory, world = (0, 0), trace = []\<rparr>"
  by (simp add: program_with_def onModuleInit_def Let_def cx_anthropic_def cx_gemini_def)

lemma ready_program_eq:
  "isAvailable openai \<Longrightarrow> ready_program openai =
     \<lparr>openaiProvider = openai, anthropicProvider = cx_anthropic,
      geminiProvider = cx_gemini\<lparr>isAvailable := False\<rparr>,
      providers = [(OPENAI, openai)], defaultProvider = OPENAI, responseCache = (\<lambda>k. None),
      factory = \<lparr>breakers = [(''ai-openai'', 0)],
                 objects = [new_CircuitBreaker
                   \<lparr>name = ''ai-openai'', failureThreshold = 5, successThreshold = 2,
                    timeout = 30000, resetTimeout = 60000\<rparr>]\<rparr>,
      world = (0, 0), trace = []\<rparr>"
  by (simp add: ready_program_def program_with_eq getOrCreate_def empty_factory_def
        ai_options_def nullish_def Let_def)

lemmas eval_defs = program_with_eq ready_program_eq cx_openai_def AIService_complete_def getProvider_def
        cached_response_def rt0_def req0_def opts0_def getCacheKey_def getOrCreate_def
        empty_factory_def ai_options_def nullish_def new_CircuitBreaker_def Let_def
        breaker_execute_def execute_def try_operation_def catch_block_def flaky_def steady_def
        unauthorized_def onFailure_def onSuccess_def transitionTo_def valid_time_def
        RangeError_def trackUsage_def


section \<open>Errors that are not retried\<close>

text \<open>
  A call through the breaker throws what the adapter throws, when the breaker lets the call
  through and the retry time a failure may set is a time value.
\<close>

lemma onFailure_throws_nothing:
  "valid_time (t + resetTimeout (options b)) \<Longrightarrow> fst (onFailure t b) = None"
  by (simp add: onFailure_def transitionTo_OPEN Let_def)

lemma adapter_error_passes_the_breaker:
  assumes "\<not> (state (objects (factory s) ! cb) = OPEN
              \<and> clock rt (world s) < nextRetryTime (objects (factory s) ! cb))"
    and "complete adapter request (world s) = (Inl e, w')"
    and "valid_time (clock rt w' + resetTimeout (options (objects (factory s) ! cb)))"
  shows "fst (breaker_execute rt adapter request cb s) = Inl e"
    and "trace (snd (breaker_execute rt adapter request cb s)) = trace s @ [ProviderInvoked]"
  using assms
    onFailure_throws_nothing[of "clock rt w'" "objects (factory s) ! cb"]
    onFailure_throws_nothing[of "clock rt w'"
      "(objects (factory s) ! cb)\<lparr>state := HALF_OPEN, successCount := 0\<rparr>"]
  by (auto simp: breaker_execute_cases Let_def)

text \<open>
  Claim C4.  An error is classified as not retryable exactly when its \<open>status\<close> is 400,
  401, 403 or 404.  In any iteration of the loop of \<open>complete\<close>, when the call through
  the breaker throws such an error or a \<open>CircuitBreakerOpenError\<close>, the loop ends and
  \<open>complete\<close> throws that error; the program is left as that call left it, so no adapter
  is called and nothing sleeps after it.  When the breaker is open and its retry time, a
  time value, has not come, nothing at all changes.  In particular, when \<open>maxRetries\<close> is at least 1,
  the response is not served from the cache, and the first call through the breaker throws
  an error that is not retryable, \<open>complete\<close> throws it and the adapter has been called
  exactly once.
\<close>

theorem non_retryable_error_is_rethrown_at_once:
  "(isNonRetryableError (Error st msg) \<longleftrightarrow> st \<in> {Some 400, Some 401, Some 403, Some 404})
   \<and> (attempt \<le> mr \<and> breaker_execute rt adapter request cb s = (Inl err, s1)
       \<and> (instanceof_CircuitBreakerOpenError err \<or> isNonRetryableError err)
      \<longrightarrow> attempts rt request opts adapter uc mr cb attempt le s = (Inl err, s1))
   \<and> (attempt_b \<le> mr_b \<and> state (objects (factory s_b) ! cb_b) = OPEN
       \<and> clock rt_b (world s_b) < nextRetryTime (objects (factory s_b) ! cb_b)
       \<and> valid_time (nextRetryTime (objects (factory s_b) ! cb_b))
      \<longrightarrow> attempts rt_b request_b opts_b adapter_b uc_b mr_b cb_b attempt_b le_b s_b
           = (Inl (CircuitBreakerOpenError (name (options (objects (factory s_b) ! cb_b)))
                     (nextRetryTime (objects (factory s_b) ! cb_b))), s_b))
   \<and> (1 \<le> (case maxRetries opts_c of None \<Rightarrow> 3 | Some n \<Rightarrow> n)
       \<and> getProvider p (provider opts_c) = Inr adapter_c
       \<and> cached_response rt_c request_c
            (case useCache opts_c of None \<Rightarrow> True | Some u \<Rightarrow> u) p = None
       \<and> getOrCreate
            (''ai-'' @ AIProvider_value
               (case provider opts_c of None \<Rightarrow> defaultProvider p | Some q \<Rightarrow> q))
            (Some ai_options) (factory p) = (cb_c, f)
       \<and> breaker_execute rt_c adapter_c request_c cb_c (p\<lparr>factory := f\<rparr>) = (Inl err_c, p1)
       \<and> isNonRetryableError err_c
      \<longrightarrow> AIService_complete rt_c request_c opts_c p = (Inl err_c, p1)
         \<and> trace p1 = trace p @ [ProviderInvoked])"
proof (intro conjI impI)
  show "isNonRetryableError (Error st msg) \<longleftrightarrow> st \<in> {Some 400, Some 401, Some 403, Some 404}"
    by (cases st) auto
next
  assume "attempt \<le> mr \<and> breaker_execute rt adapter request cb s = (Inl err, s1)
       \<and> (instanceof_CircuitBreakerOpenError err \<or> isNonRetryableError err)"
  then show "attempts rt request opts adapter uc mr cb attempt le s = (Inl err, s1)"
    by (simp add: attempts_stop)
next
  assume a: "attempt_b \<le> mr_b \<and> state (objects (factory s_b) ! cb_b) = OPEN
       \<and> clock rt_b (world s_b) < nextRetryTime (objects (factory s_b) ! cb_b)
       \<and> valid_time (nextRetryTime (objects (factory s_b) ! cb_b))"
  then have "breaker_execute rt_b adapter_b request_b cb_b s_b
      = (Inl (CircuitBreakerOpenError (name (options (objects (factory s_b) ! cb_b)))
                     (nextRetryTime (objects (factory s_b) ! cb_b))), s_b)"
    by (simp add: breaker_execute_cases)
  then show "attempts rt_b request_b opts_b adapter_b uc_b mr_b cb_b attempt_b le_b s_b
           = (Inl (CircuitBreakerOpenError (name (options (objects (factory s_b) ! cb_b)))
                     (nextRetryTime (objects (factory s_b) ! cb_b))), s_b)"
    using a by (intro attempts_stop) simp_all
next
  assume a: "1 \<le> (case maxRetries opts_c of None \<Rightarrow> 3 | Some n \<Rightarrow> n)
       \<and> getProvider p (provider opts_c) = Inr adapter_c
       \<and> cached_response rt_c request_c
            (case useCache opts_c of None \<Rightarrow> True | Some u \<Rightarrow> u) p = None
       \<and> getOrCreate
            (''ai-'' @ AIProvider_value
               (case provider opts_c of None \<Rightarrow> defaultProvider p | Some q \<Rightarrow> q))
            (Some ai_options) (factory p) = (cb_c, f)
       \<and> breaker_execute rt_c adapter_c request_c cb_c (p\<lparr>factory := f\<rparr>) = (Inl err_c, p1)
       \<and> isNonRetryableError err_c"
  then have be: "breaker_execute rt_c adapter_c request_c cb_c (p\<lparr>factory := f\<rparr>) = (Inl err_c, p1)"
    and nr: "isNonRetryableError err_c" by simp_all
  have "AIService_complete rt_c request_c opts_c p
      = attempts rt_c request_c opts_c adapter_c
          (case useCache opts_c of None \<Rightarrow> True | Some u \<Rightarrow> u)
          (case maxRetries opts_c of None \<Rightarrow> 3 | Some n \<Rightarrow> n) cb_c 1 None (p\<lparr>factory := f\<rparr>)"
    using a by (intro AIService_complete_miss) simp_all
  also have "\<dots> = (Inl err_c, p1)"
    using a by (intro attempts_stop) simp_all
  finally show "AIService_complete rt_c request_c opts_c p = (Inl err_c, p1)" .
  show "trace p1 = trace p @ [ProviderInvoked]"
    using breaker_execute_thrown_by_adapter[OF be nr] by simp
qed

theorem non_retryable_error_is_rethrown_at_once_witness:
  "isNonRetryableError (Error (Some 401) ''invalid api key'')
   \<and> fst (breaker_execute rt0 (cx_openai\<lparr>complete := unauthorized\<rparr>) req0 0
          (ready_program (cx_openai\<lparr>complete := unauthorized\<rparr>)))
       = Inl (Error (Some 401) ''invalid api key'')
   \<and> fst (attempts rt0 req0 opts0 (cx_openai\<lparr>complete := unauthorized\<rparr>) True 3 0 1 None
          (ready_program (cx_openai\<lparr>complete := unauthorized\<rparr>)))
       = Inl (Error (Some 401) ''invalid api key'')
   \<and> state (objects (factory open_program) ! 0) = OPEN
   \<and> clock rt0 (world open_program) < nextRetryTime (objects (factory open_program) ! 0)
   \<and> valid_time (nextRetryTime (objects (factory open_program) ! 0))
   \<and> attempts rt0 req0 opts0 cx_openai True 3 0 1 None open_program
       = (Inl (CircuitBreakerOpenError ''ai-openai'' 60210), open_program)
   \<and> getProvider (program_with (cx_openai\<lparr>complete := unauthorized\<rparr>)) (provider opts0)
       = Inr (cx_openai\<lparr>complete := unauthorized\<rparr>)
   \<and> cached_response rt0 req0 True (program_with (cx_openai\<lparr>complete := unauthorized\<rparr>)) = None
   \<and> fst (AIService_complete rt0 req0 opts0 (program_with (cx_openai\<lparr>complete := unauthorized\<rparr>)))
       = Inl (Error (Some 401) ''invalid api key'')
   \<and> trace (snd (AIService_complete rt0 req0 opts0
          (program_with (cx_openai\<lparr>complete := unauthorized\<rparr>))))
       = [ProviderInvoked]"
  using non_retryable_error_is_rethrown_at_once[where
      st = "Some 401" and msg = "''invalid api key''"
      and attempt = 1 and mr = 3 and rt = rt0
      and adapter = "cx_openai\<lparr>complete := unauthorized\<rparr>" and request = req0 and cb = 0
      and s = "ready_program (cx_openai\<lparr>complete := unauthorized\<rparr>)"
      and err = "Error (Some 401) ''invalid api key''"
      and ?s1.0 = "snd (breaker_execute rt0 (cx_openai\<lparr>complete := unauthorized\<rparr>) req0 0
          (ready_program (cx_openai\<lparr>complete := unauthorized\<rparr>)))"
      and opts = opts0 and uc = True and le = None
      and attempt_b = 1 and mr_b = 3 and s_b = open_program and cb_b = 0 and rt_b = rt0
      and request_b = req0 and opts_b = opts0 and adapter_b = cx_openai and uc_b = True
      and le_b = None
      and opts_c = opts0 and p = "program_with (cx_openai\<lparr>complete := unauthorized\<rparr>)"
      and adapter_c = "cx_openai\<lparr>complete := unauthorized\<rparr>" and rt_c = rt0
      and request_c = req0 and cb_c = 0
      and f = "snd (getOrCreate ''ai-openai'' (Some ai_options) empty_factory)"
      and err_c = "Error (Some 401) ''invalid api key''"
      and ?p1.0 = "snd (breaker_execute rt0 (cx_openai\<lparr>complete := unauthorized\<rparr>) req0 0
          (ready_program (cx_openai\<lparr>complete := unauthorized\<rparr>)))"]
  by (simp add: eval_defs open_program_def opened_eq w_opts_def)

section \<open>Retries and backoff\<close>
lemma attempts_options:
  "CompleteOptions.projectId o2 = CompleteOptions.projectId o1 \<Longrightarrow>
   CompleteOptions.userId o2 = CompleteOptions.userId o1 \<Longrightarrow>
   CompleteOptions.operation o2 = CompleteOptions.operation o1 \<Longrightarrow>
   attempts rt request o2 adapter uc mr cb attempt le s
     = attempts rt request o1 adapter uc mr cb attempt le s"
proof (induction rt request o1 adapter uc mr cb attempt le s rule: attempts.induct)
  case (1 rt request o1 adapter uc mr cb attempt le s)
  show ?case
  proof (cases "attempt \<le> mr")
    case False
    then show ?thesis by (simp add: attempts_over)
  next
    case True
    obtain res s1 where be: "breaker_execute rt adapter request cb s = (res, s1)"
      by (cases "breaker_execute rt adapter request cb s")
    show ?thesis
    proof (cases res)
      case (Inr resp)
      show ?thesis
        using attempts_success_eq[OF True be[unfolded Inr], of o1 uc le]
          attempts_success_eq[OF True be[unfolded Inr], of o2 uc le] "1.prems"
        by (auto simp: Let_def split: option.splits)
    next
      case (Inl err)
      show ?thesis
      proof (cases "instanceof_CircuitBreakerOpenError err \<or> isNonRetryableError err")
        case stop: True
        show ?thesis
          using attempts_stop[OF True be[unfolded Inl] stop, of o1 uc le]
            attempts_stop[OF True be[unfolded Inl] stop, of o2 uc le] by simp
      next
        case retry: False
        define s2 where "s2 = (if attempt < mr
          then let delay = min (1000 * 2 ^ nat (attempt - 1)) 10000
               in s1\<lparr>world := sleep rt delay (world s1), trace := trace s1 @ [Slept delay]\<rparr>
          else s1)"
        have eq: "attempts rt request opt adapter uc mr cb attempt le s
            = attempts rt request opt adapter uc mr cb (attempt + 1) (Some err) s2" for opt
          using True be Inl retry by (subst attempts.simps) (simp add: s2_def Let_def)
        show ?thesis
          unfolding eq using "1.IH"[OF True be[symmetric] Inl retry s2_def "1.prems"] .
      qed
    qed
  qed
qed

lemma sleeps_append: "sleeps (t @ u) = sleeps t @ sleeps u"
  by (induction t rule: sleeps.induct) simp_all

lemma breaker_execute_sleeps:
  "breaker_execute rt adapter request cb s = (res, s1) \<Longrightarrow> sleeps (trace s1) = sleeps (trace s)"
  by (auto simp: breaker_execute_cases Let_def sleeps_append
        split: if_splits prod.splits sum.splits)

lemma attempts_sleeps:
  "1 \<le> attempt \<Longrightarrow>
   \<exists>k. (k = 0 \<or> attempt + int k \<le> mr)
     \<and> sleeps (trace (snd (attempts rt request opts adapter uc mr cb attempt le s)))
        = sleeps (trace s)
          @ map (\<lambda>a. min (1000 * 2 ^ (a - 1)) 10000) [nat attempt ..< nat attempt + k]"
proof (induction rt request opts adapter uc mr cb attempt le s rule: attempts.induct)
  case (1 rt request opts adapter uc mr cb attempt le s)
  show ?case
  proof (cases "attempt \<le> mr")
    case False
    then show ?thesis by (intro exI[of _ 0]) (simp add: attempts_over)
  next
    case True
    obtain res s1 where be: "breaker_execute rt adapter request cb s = (res, s1)"
      by (cases "breaker_execute rt adapter request cb s")
    have sl1: "sleeps (trace s1) = sleeps (trace s)" using breaker_execute_sleeps[OF be] .
    show ?thesis
    proof (cases res)
      case (Inr resp)
      then show ?thesis
        using attempts_success(2)[OF True be[unfolded Inr]] sl1 by (intro exI[of _ 0]) simp
    next
      case (Inl err)
      show ?thesis
      proof (cases "instanceof_CircuitBreakerOpenError err \<or> isNonRetryableError err")
        case stop: True
        show ?thesis
          using attempts_stop[OF True be[unfolded Inl] stop] sl1 by (intro exI[of _ 0]) simp
      next
        case retry: False
        define s2 where "s2 = (if attempt < mr
          then let delay = min (1000 * 2 ^ nat (attempt - 1)) 10000
               in s1\<lparr>world := sleep rt delay (world s1), trace := trace s1 @ [Slept delay]\<rparr>
          else s1)"
        have eq: "attempts rt request opts adapter uc mr cb attempt le s
            = attempts rt request opts adapter uc mr cb (attempt + 1) (Some err) s2"
          using True be Inl retry by (subst attempts.simps) (simp add: s2_def Let_def)
        show ?thesis
        proof (cases "attempt < mr")
          case False
          then have "attempts rt request opts adapter uc mr cb (attempt + 1) (Some err) s2
              = (Inl err, s1)"
            by (simp add: attempts_over s2_def)
          then show ?thesis using eq sl1 by (intro exI[of _ 0]) simp
        next
          case lt: True
          have sl2: "sleeps (trace s2)
              = sleeps (trace s) @ [min (1000 * 2 ^ (nat attempt - 1)) 10000]"
            using lt sl1 "1.prems" by (simp add: s2_def Let_def sleeps_append nat_diff_distrib)
          obtain k where k: "k = 0 \<or> attempt + 1 + int k \<le> mr"
            "sleeps (trace (snd (attempts rt request opts adapter uc mr cb (attempt + 1)
                 (Some err) s2)))
             = sleeps (trace s2)
               @ map (\<lambda>a. min (1000 * 2 ^ (a - 1)) 10000)
                   [nat (attempt + 1) ..< nat (attempt + 1) + k]"
            using "1.IH"[OF True be[symmetric] Inl retry s2_def] "1.prems" by auto
          have n1: "nat (attempt + 1) = Suc (nat attempt)" using "1.prems" by simp
          have up: "map (\<lambda>a. min (1000 * 2 ^ (a - 1)) (10000::int))
                [nat attempt ..< nat attempt + Suc k]
              = min (1000 * 2 ^ (nat attempt - 1)) 10000
                # map (\<lambda>a. min (1000 * 2 ^ (a - 1)) 10000)
                    [Suc (nat attempt) ..< Suc (nat attempt) + k]"
            by (simp add: upt_conv_Cons del: upt_Suc)
          have total: "sleeps (trace (snd (attempts rt request opts adapter uc mr cb attempt le s)))
              = sleeps (trace s)
                @ map (\<lambda>a. min (1000 * 2 ^ (a - 1)) 10000)
                    [nat attempt ..< nat attempt + Suc k]"
            unfolding up eq k(2) sl2 n1 by simp
          have bound: "attempt + int (Suc k) \<le> mr" using k(1) lt by auto
          show ?thesis
            using total bound by (intro exI[of _ "Suc k"]) simp
        qed
      qed
    qed
  qed
qed

lemma AIService_complete_sleeps:
  "\<exists>k. (k = 0 \<or> 1 + int k \<le> (case maxRetries opts of None \<Rightarrow> 3 | Some n \<Rightarrow> n))
     \<and> sleeps (trace (snd (AIService_complete rt request opts s)))
        = sleeps (trace s) @ map (\<lambda>a. min (1000 * 2 ^ (a - 1)) 10000) [1 ..< 1 + k]"
proof (cases "getProvider s (provider opts)")
  case (Inl e)
  then show ?thesis by (intro exI[of _ 0]) (simp add: AIService_complete_def)
next
  case (Inr a)
  show ?thesis
  proof (cases "cached_response rt request (case useCache opts of None \<Rightarrow> True | Some u \<Rightarrow> u) s")
    case (Some h)
    then show ?thesis using Inr by (intro exI[of _ 0]) (simp add: AIService_complete_def Let_def)
  next
    case None
    obtain cb f where g: "getOrCreate
        (''ai-'' @ AIProvider_value
           (case provider opts of None \<Rightarrow> defaultProvider s | Some p \<Rightarrow> p))
        (Some ai_options) (factory s) = (cb, f)"
      by (cases "getOrCreate
        (''ai-'' @ AIProvider_value
           (case provider opts of None \<Rightarrow> defaultProvider s | Some p \<Rightarrow> p))
        (Some ai_options) (factory s)")
    show ?thesis
      unfolding AIService_complete_miss[OF Inr None g]
      using attempts_sleeps[of 1 "case maxRetries opts of None \<Rightarrow> 3 | Some n \<Rightarrow> n"
          rt request opts a "case useCache opts of None \<Rightarrow> True | Some u \<Rightarrow> u" cb None
          "s\<lparr>factory := f\<rparr>"]
      by simp
  qed
qed

text \<open>
  Claim C5.  In any iteration of the loop of \<open>complete\<close> within \<open>maxRetries\<close>: when the
  call through the breaker resolves, \<open>complete\<close> resolves to that response and the trace
  ends with that call (no further attempt, no sleep).  When it throws an error that is
  retryable (neither a \<open>CircuitBreakerOpenError\<close> nor classified as not retryable) in
  attempt \<open>a\<close> with \<open>1 \<le> a < maxRetries\<close>, the loop sleeps \<open>min (1000 * 2 ^ (a - 1)) 10000\<close>
  milliseconds and goes on with attempt \<open>a + 1\<close>.  When it throws a retryable error in
  attempt \<open>maxRetries\<close>, \<open>complete\<close> throws that error.  A call of \<open>complete\<close> calls
  the adapter at most \<open>maxRetries\<close> times; its sleeps are, in this order, those of
  attempts 1, 2, ... up to some attempt below \<open>maxRetries\<close>; and a missing
  \<open>maxRetries\<close> is 3.
\<close>

theorem retry_with_exponential_backoff:
  "(attempt \<le> mr \<and> breaker_execute rt adapter request cb s = (Inr resp, s1)
      \<longrightarrow> fst (attempts rt request opts adapter uc mr cb attempt le s) = Inr resp
        \<and> trace (snd (attempts rt request opts adapter uc mr cb attempt le s)) = trace s1)
   \<and> (1 \<le> attempt_b \<and> attempt_b < mr_b
       \<and> breaker_execute rt_b adapter_b request_b cb_b s_b = (Inl err_b, t_b)
       \<and> \<not> instanceof_CircuitBreakerOpenError err_b \<and> \<not> isNonRetryableError err_b
      \<longrightarrow> attempts rt_b request_b opts_b adapter_b uc_b mr_b cb_b attempt_b le_b s_b
          = attempts rt_b request_b opts_b adapter_b uc_b mr_b cb_b (attempt_b + 1) (Some err_b)
              (t_b\<lparr>world := sleep rt_b (min (1000 * 2 ^ nat (attempt_b - 1)) 10000) (world t_b),
                   trace := trace t_b @ [Slept (min (1000 * 2 ^ nat (attempt_b - 1)) 10000)]\<rparr>))
   \<and> (breaker_execute rt_c adapter_c request_c cb_c s_c = (Inl err_c, t_c)
       \<and> \<not> instanceof_CircuitBreakerOpenError err_c \<and> \<not> isNonRetryableError err_c
      \<longrightarrow> attempts rt_c request_c opts_c adapter_c uc_c mr_c cb_c mr_c le_c s_c
          = (Inl err_c, t_c))
   \<and> invocations (trace (snd (AIService_complete rt_d request_d opts_d p)))
       \<le> invocations (trace p) + nat (case maxRetries opts_d of None \<Rightarrow> 3 | Some n \<Rightarrow> n)
   \<and> (\<exists>k. (k = 0 \<or> 1 + int k \<le> (case maxRetries opts_d of None \<Rightarrow> 3 | Some n \<Rightarrow> n))
         \<and> sleeps (trace (snd (AIService_complete rt_d request_d opts_d p)))
            = sleeps (trace p) @ map (\<lambda>a. min (1000 * 2 ^ (a - 1)) 10000) [1 ..< 1 + k])
   \<and> AIService_complete rt_d request_d (opts_d\<lparr>maxRetries := None\<rparr>) p
       = AIService_complete rt_d request_d (opts_d\<lparr>maxRetries := Some 3\<rparr>) p"
proof (intro conjI impI)
  assume a: "attempt \<le> mr \<and> breaker_execute rt adapter request cb s = (Inr resp, s1)"
  then show "fst (attempts rt request opts adapter uc mr cb attempt le s) = Inr resp"
    using attempts_success(1)[of attempt mr rt adapter request cb s resp s1] by simp
  show "trace (snd (attempts rt request opts adapter uc mr cb attempt le s)) = trace s1"
    using a attempts_success(2)[of attempt mr rt adapter request cb s resp s1] by simp
next
  assume "1 \<le> attempt_b \<and> attempt_b < mr_b
       \<and> breaker_execute rt_b adapter_b request_b cb_b s_b = (Inl err_b, t_b)
       \<and> \<not> instanceof_CircuitBreakerOpenError err_b \<and> \<not> isNonRetryableError err_b"
  then show "attempts rt_b request_b opts_b adapter_b uc_b mr_b cb_b attempt_b le_b s_b
          = attempts rt_b request_b opts_b adapter_b uc_b mr_b cb_b (attempt_b + 1) (Some err_b)
              (t_b\<lparr>world := sleep rt_b (min (1000 * 2 ^ nat (attempt_b - 1)) 10000) (world t_b),
                   trace := trace t_b @ [Slept (min (1000 * 2 ^ nat (attempt_b - 1)) 10000)]\<rparr>)"
    by (intro attempts_retry) simp_all
next
  assume "breaker_execute rt_c adapter_c request_c cb_c s_c = (Inl err_c, t_c)
       \<and> \<not> instanceof_CircuitBreakerOpenError err_c \<and> \<not> isNonRetryableError err_c"
  then show "attempts rt_c request_c opts_c adapter_c uc_c mr_c cb_c mr_c le_c s_c
          = (Inl err_c, t_c)"
    by (intro attempts_exhausted) simp_all
next
  show "invocations (trace (snd (AIService_complete rt_d request_d opts_d p)))
       \<le> invocations (trace p) + nat (case maxRetries opts_d of None \<Rightarrow> 3 | Some n \<Rightarrow> n)"
    by (rule AIService_complete_invocations)
next
  show "\<exists>k. (k = 0 \<or> 1 + int k \<le> (case maxRetries opts_d of None \<Rightarrow> 3 | Some n \<Rightarrow> n))
         \<and> sleeps (trace (snd (AIService_complete rt_d request_d opts_d p)))
            = sleeps (trace p) @ map (\<lambda>a. min (1000 * 2 ^ (a - 1)) 10000) [1 ..< 1 + k]"
    by (rule AIService_complete_sleeps)
next
  show "AIService_complete rt_d request_d (opts_d\<lparr>maxRetries := None\<rparr>) p
       = AIService_complete rt_d request_d (opts_d\<lparr>maxRetries := Some 3\<rparr>) p"
    by (cases "getProvider p (provider opts_d)")
       (simp_all add: AIService_complete_def Let_def
          attempts_options[of "opts_d\<lparr>maxRetries := None\<rparr>" "opts_d\<lparr>maxRetries := Some 3\<rparr>"]
          split: option.splits prod.splits)
qed

theorem retry_with_exponential_backoff_witness:
  "fst (breaker_execute rt0 cx_openai req0 0 (ready_program cx_openai)) = Inr canned
   \<and> fst (attempts rt0 req0 opts0 cx_openai True 3 0 1 None (ready_program cx_openai)) = Inr canned
   \<and> trace (snd (attempts rt0 req0 opts0 cx_openai True 3 0 1 None (ready_program cx_openai)))
       = [ProviderInvoked]
   \<and> fst (breaker_execute rt0 (cx_openai\<lparr>complete := flaky\<rparr>) req0 0
          (ready_program (cx_openai\<lparr>complete := flaky\<rparr>)))
       = Inl (Error (Some 503) ''overloaded'')
   \<and> \<not> isNonRetryableError (Error (Some 503) ''overloaded'')
   \<and> attempts rt0 req0 opts0 (cx_openai\<lparr>complete := flaky\<rparr>) True 3 0 1 None
          (ready_program (cx_openai\<lparr>complete := flaky\<rparr>))
       = attempts rt0 req0 opts0 (cx_openai\<lparr>complete := flaky\<rparr>) True 3 0 2
          (Some (Error (Some 503) ''overloaded''))
          ((snd (breaker_execute rt0 (cx_openai\<lparr>complete := flaky\<rparr>) req0 0
                  (ready_program (cx_openai\<lparr>complete := flaky\<rparr>))))
             \<lparr>world := (1050, 1), trace := [ProviderInvoked, Slept 1000]\<rparr>)
   \<and> fst (attempts rt0 req0 opts0 (cx_openai\<lparr>complete := flaky\<rparr>) True 1 0 1 None
          (ready_program (cx_openai\<lparr>complete := flaky\<rparr>)))
       = Inl (Error (Some 503) ''overloaded'')
   \<and> trace (snd (AIService_complete rt0 req0 opts0 (program_with (cx_openai\<lparr>complete := flaky\<rparr>))))
       = [ProviderInvoked, Slept 1000, ProviderInvoked]"
  using retry_with_exponential_backoff[where
      attempt = 1 and mr = 3 and rt = rt0 and adapter = cx_openai and request = req0 and cb = 0
      and s = "ready_program cx_openai" and resp = canned
      and ?s1.0 = "snd (breaker_execute rt0 cx_openai req0 0 (ready_program cx_openai))"
      and opts = opts0 and uc = True and le = None
      and attempt_b = 1 and mr_b = 3 and rt_b = rt0
      and adapter_b = "cx_openai\<lparr>complete := flaky\<rparr>" and request_b = req0 and cb_b = 0
      and s_b = "ready_program (cx_openai\<lparr>complete := flaky\<rparr>)"
      and err_b = "Error (Some 503) ''overloaded''"
      and t_b = "snd (breaker_execute rt0 (cx_openai\<lparr>complete := flaky\<rparr>) req0 0
                  (ready_program (cx_openai\<lparr>complete := flaky\<rparr>)))"
      and opts_b = opts0 and uc_b = True and le_b = None
      and rt_c = rt0 and adapter_c = "cx_openai\<lparr>complete := flaky\<rparr>" and request_c = req0
      and cb_c = 0 and s_c = "ready_program (cx_openai\<lparr>complete := flaky\<rparr>)"
      and err_c = "Error (Some 503) ''overloaded''"
      and t_c = "snd (breaker_execute rt0 (cx_openai\<lparr>complete := flaky\<rparr>) req0 0
                  (ready_program (cx_openai\<lparr>complete := flaky\<rparr>)))"
      and opts_c = opts0 and uc_c = True and mr_c = 1 and le_c = None
      and rt_d = rt0 and request_d = req0 and opts_d = opts0
      and p = "program_with (cx_openai\<lparr>complete := flaky\<rparr>)"]
  by (simp add: eval_defs attempts.simps)

text \<open>
  A vendor that is overloaded at the first two requests, with \<open>maxRetries\<close> 3: three
  adapter calls, a sleep of 1000 ms and one of 2000 ms between them, and the response of
  the third call.
\<close>

lemma retry_timing_example:
  "fst (AIService_complete rt0 req0 opts0 (program_with (cx_openai\<lparr>complete := overloaded_twice\<rparr>)))
     = Inr canned
   \<and> trace (snd (AIService_complete rt0 req0 opts0
        (program_with (cx_openai\<lparr>complete := overloaded_twice\<rparr>))))
     = [ProviderInvoked, Slept 1000, ProviderInvoked, Slept 2000, ProviderInvoked]"
  by (simp add: eval_defs attempts.simps overloaded_twice_def)

section \<open>Usage recording\<close>

text \<open>
  Claim C9.  When the body of the \<open>try\<close> block of \<open>trackUsage\<close> throws, \<open>trackUsage\<close>
  logs the error and returns; it never throws.  A call through the breaker that resolves
  makes \<open>complete\<close> resolve to that response, whatever usage recording does.  What
  \<open>complete\<close> returns or throws, and the program it leaves behind apart from the outside
  world (where the logs are), are the same for any two ways usage recording and error
  logging can behave, in particular for one that succeeds and one that fails.
\<close>

theorem usage_recording_failure_is_swallowed:
  "(usage_log rt usageRecord w0 = (Inl err, w1)
      \<longrightarrow> trackUsage rt usageRecord w0 = logger_error rt w1)
   \<and> (attempt \<le> mr \<and> breaker_execute rt_b adapter request_b cb s_b = (Inr resp, t_b)
      \<longrightarrow> fst (attempts rt_b request_b opts_b adapter uc mr cb attempt le s_b) = Inr resp)
   \<and> fst (AIService_complete (rt_c\<lparr>usage_log := u, logger_error := l\<rparr>) request opts s)
       = fst (AIService_complete rt_c request opts s)
   \<and> (snd (AIService_complete (rt_c\<lparr>usage_log := u, logger_error := l\<rparr>) request opts s))
          \<lparr>world := w\<rparr>
       = (snd (AIService_complete rt_c request opts s))\<lparr>world := w\<rparr>"
proof (intro conjI impI)
  assume "usage_log rt usageRecord w0 = (Inl err, w1)"
  then show "trackUsage rt usageRecord w0 = logger_error rt w1"
    by (simp add: trackUsage_def)
next
  assume "attempt \<le> mr \<and> breaker_execute rt_b adapter request_b cb s_b = (Inr resp, t_b)"
  then show "fst (attempts rt_b request_b opts_b adapter uc mr cb attempt le s_b) = Inr resp"
    using attempts_success(1)[of attempt mr rt_b adapter request_b cb s_b resp t_b] by simp
next
  show "fst (AIService_complete (rt_c\<lparr>usage_log := u, logger_error := l\<rparr>) request opts s)
       = fst (AIService_complete rt_c request opts s)"
    using AIService_complete_usage_independent[where rt = rt_c and u = u and l = l
        and request = request and opts = opts and s = s and w = w] by simp
  show "(snd (AIService_complete (rt_c\<lparr>usage_log := u, logger_error := l\<rparr>) request opts s))
          \<lparr>world := w\<rparr>
       = (snd (AIService_complete rt_c request opts s))\<lparr>world := w\<rparr>"
    using AIService_complete_usage_independent[where rt = rt_c and u = u and l = l
        and request = request and opts = opts and s = s and w = w] by simp
qed

theorem usage_recording_failure_is_swallowed_witness:
  "usage_log rt0 usage0 (50, 1) = (Inl (Error None ''usage table missing''), (50, 1))
   \<and> trackUsage rt0 usage0 (50, 1) = (50, 1)
   \<and> CompleteOptions.projectId opts0 = Some ''p1''
   \<and> fst (breaker_execute rt0 cx_openai req0 0 (ready_program cx_openai)) = Inr canned
   \<and> fst (attempts rt0 req0 opts0 cx_openai True 3 0 1 None (ready_program cx_openai)) = Inr canned
   \<and> fst (AIService_complete rt0 req0 opts0 (program_with cx_openai)) = Inr canned
   \<and> fst (AIService_complete (rt0\<lparr>usage_log := (\<lambda>r w. (Inr (), w)), logger_error := (\<lambda>w. w)\<rparr>)
          req0 opts0 (program_with cx_openai)) = Inr canned"
  using usage_recording_failure_is_swallowed[where rt = rt0 and usageRecord = usage0 and ?w0.0 = "(50, 1)"
      and err = "Error None ''usage table missing''" and ?w1.0 = "(50, 1)"
      and attempt = 1 and mr = 3 and rt_b = rt0 and adapter = cx_openai and request_b = req0
      and cb = 0 and s_b = "ready_program cx_openai" and resp = canned
      and t_b = "snd (breaker_execute rt0 cx_openai req0 0 (ready_program cx_openai))"
      and opts_b = opts0 and uc = True and le = None
      and rt_c = rt0 and u = "\<lambda>r w. (Inr (), w)" and l = "\<lambda>w. w" and request = req0
      and opts = opts0 and s = "program_with cx_openai" and w = "(0, 0)"]
  by (simp add: eval_defs attempts.simps usage0_def)

section \<open>The response cache\<close>

text \<open>
  Claim C6 fails where it bounds the adapter calls of the two calls together by one.
  With caching enabled and no stream flag, the vendor is overloaded at the first request:
  the first call of \<open>complete\<close> calls the adapter, sleeps, calls it again and resolves;
  the second call, made with the same request right after, is served from the cache.  The
  adapter has then been called twice.
\<close>

theorem cached_call_after_retry_invokes_adapter_twice:
  "useCache opts0 = None \<and> stream req0 = None
   \<and> trace (program_with (cx_openai\<lparr>complete := flaky\<rparr>)) = []
   \<and> fst (AIService_complete rt0 req0 opts0 (program_with (cx_openai\<lparr>complete := flaky\<rparr>)))
       = Inr canned
   \<and> responseCache
        (snd (AIService_complete rt0 req0 opts0 (program_with (cx_openai\<lparr>complete := flaky\<rparr>))))
        (getCacheKey rt0 req0) = Some \<lparr>response = canned, timestamp = 1100\<rparr>
   \<and> clock rt0 (world
        (snd (AIService_complete rt0 req0 opts0 (program_with (cx_openai\<lparr>complete := flaky\<rparr>)))))
       - 1100 < CACHE_TTL_MS
   \<and> fst (AIService_complete rt0 req0 opts0
          (snd (AIService_complete rt0 req0 opts0 (program_with (cx_openai\<lparr>complete := flaky\<rparr>)))))
       = Inr (canned\<lparr>cached := Some True\<rparr>)
   \<and> invocations (trace (snd (AIService_complete rt0 req0 opts0
          (snd (AIService_complete rt0 req0 opts0 (program_with (cx_openai\<lparr>complete := flaky\<rparr>)))))))
       = 2"
  by (simp add: eval_defs attempts.simps invocations_def CACHE_TTL_MS_def)

text \<open>
  Claim C6, amended.  Two calls of \<open>complete\<close>, caching enabled and no stream flag in
  either, with the same messages, model, maxTokens, temperature and responseFormat: when
  the first call resolves, the cache holds an entry for the request, and a second call
  made in any state of the program where the same adapters are registered, that entry is
  still in the cache and the clock reads less than 5 minutes (300000 ms) past the entry's
  timestamp resolves to the response of the first call with \<open>cached\<close> set, and changes
  nothing: it calls no adapter.  So the adapter calls of both calls are those of the first
  call, at most \<open>maxRetries\<close>.  A call whose request has the stream flag set behaves
  the same whatever the cache holds, and leaves the cache as it is.
\<close>

theorem cached_response_served_within_ttl:
  "(useCache opts1 \<noteq> Some False \<and> stream req1 \<noteq> Some True
     \<and> useCache opts2 \<noteq> Some False \<and> stream req2 \<noteq> Some True
     \<and> messages req2 = messages req1
     \<and> AICompletionRequest.model req2 = AICompletionRequest.model req1
     \<and> maxTokens req2 = maxTokens req1 \<and> temperature req2 = temperature req1
     \<and> responseFormat req2 = responseFormat req1
     \<and> AIService_complete rt req1 opts1 s = (Inr r, s1)
    \<longrightarrow> invocations (trace s1)
          \<le> invocations (trace s) + nat (case maxRetries opts1 of None \<Rightarrow> 3 | Some n \<Rightarrow> n)
      \<and> (\<exists>e. responseCache s1 (getCacheKey rt req1) = Some e
            \<and> (\<forall>s2. providers s2 = providers s1
                    \<and> responseCache s2 (getCacheKey rt req1) = Some e
                    \<and> clock rt (world s2) - timestamp e < CACHE_TTL_MS
                  \<longrightarrow> AIService_complete rt req2 opts2 s2
                       = (Inr (r\<lparr>cached := Some True\<rparr>), s2))))
   \<and> (stream req = Some True
    \<longrightarrow> AIService_complete rt_b req opts (s_b\<lparr>responseCache := c\<rparr>)
          = (fst (AIService_complete rt_b req opts s_b),
             (snd (AIService_complete rt_b req opts s_b))\<lparr>responseCache := c\<rparr>))
   \<and> CACHE_TTL_MS = 300000"
proof (intro conjI impI)
  assume a: "useCache opts1 \<noteq> Some False \<and> stream req1 \<noteq> Some True
     \<and> useCache opts2 \<noteq> Some False \<and> stream req2 \<noteq> Some True
     \<and> messages req2 = messages req1
     \<and> AICompletionRequest.model req2 = AICompletionRequest.model req1
     \<and> maxTokens req2 = maxTokens req1 \<and> temperature req2 = temperature req1
     \<and> responseFormat req2 = responseFormat req1
     \<and> AIService_complete rt req1 opts1 s = (Inr r, s1)"
  then have c: "AIService_complete rt req1 opts1 s = (Inr r, s1)" by simp
  show "invocations (trace s1)
          \<le> invocations (trace s) + nat (case maxRetries opts1 of None \<Rightarrow> 3 | Some n \<Rightarrow> n)"
    using AIService_complete_invocations[of rt req1 opts1 s] c by simp
  have key: "getCacheKey rt req2 = getCacheKey rt req1"
    using a by (intro getCacheKey_cong) simp_all
  obtain a1 where "getProvider s (provider opts1) = Inr a1"
    using c by (auto simp: AIService_complete_def split: sum.splits)
  then have ne: "providers s1 \<noteq> []"
    using getProvider_nonempty AIService_complete_providers[of rt req1 opts1 s] c by fastforce
  obtain e where e: "responseCache s1 (getCacheKey rt req1) = Some e"
      "(response e)\<lparr>cached := Some True\<rparr> = r\<lparr>cached := Some True\<rparr>"
    using AIService_complete_stored[of opts1 req1 rt s r s1] a by auto
  show "\<exists>e. responseCache s1 (getCacheKey rt req1) = Some e
            \<and> (\<forall>s2. providers s2 = providers s1
                    \<and> responseCache s2 (getCacheKey rt req1) = Some e
                    \<and> clock rt (world s2) - timestamp e < CACHE_TTL_MS
                  \<longrightarrow> AIService_complete rt req2 opts2 s2
                       = (Inr (r\<lparr>cached := Some True\<rparr>), s2))"
  proof (intro exI[of _ e] conjI allI impI)
    show "responseCache s1 (getCacheKey rt req1) = Some e" by (rule e(1))
  next
    fix s2 :: "'a program"
    assume b: "providers s2 = providers s1
                    \<and> responseCache s2 (getCacheKey rt req1) = Some e
                    \<and> clock rt (world s2) - timestamp e < CACHE_TTL_MS"
    have "AIService_complete rt req2 opts2 s2 = (Inr ((response e)\<lparr>cached := Some True\<rparr>), s2)"
      using a b ne key by (intro AIService_complete_hit) simp_all
    then show "AIService_complete rt req2 opts2 s2 = (Inr (r\<lparr>cached := Some True\<rparr>), s2)"
      using e(2) by simp
  qed
next
  assume "stream req = Some True"
  then show "AIService_complete rt_b req opts (s_b\<lparr>responseCache := c\<rparr>)
          = (fst (AIService_complete rt_b req opts s_b),
             (snd (AIService_complete rt_b req opts s_b))\<lparr>responseCache := c\<rparr>)"
    by (rule AIService_complete_stream_frame)
next
  show "CACHE_TTL_MS = 300000" by (simp add: CACHE_TTL_MS_def)
qed

theorem cached_response_served_within_ttl_witness:
  "AIService_complete rt0 req0 opts0 (program_with cx_openai)
     = (Inr canned, snd (AIService_complete rt0 req0 opts0 (program_with cx_openai)))
   \<and> responseCache (snd (AIService_complete rt0 req0 opts0 (program_with cx_openai)))
        (getCacheKey rt0 req0) = Some \<lparr>response = canned, timestamp = 50\<rparr>
   \<and> AIService_complete rt0 (req0\<lparr>stream := Some False\<rparr>)
        (opts0\<lparr>CompleteOptions.projectId := None\<rparr>)
        ((snd (AIService_complete rt0 req0 opts0 (program_with cx_openai)))
           \<lparr>world := (200000, 1)\<rparr>)
     = (Inr (canned\<lparr>cached := Some True\<rparr>),
        (snd (AIService_complete rt0 req0 opts0 (program_with cx_openai)))
           \<lparr>world := (200000, 1)\<rparr>)
   \<and> stream (req0\<lparr>stream := Some True\<rparr>) = Some True
   \<and> AIService_complete rt0 (req0\<lparr>stream := Some True\<rparr>) opts0
        ((program_with cx_openai)
           \<lparr>responseCache := (\<lambda>k. Some \<lparr>response = canned, timestamp = 0\<rparr>)\<rparr>)
     = (fst (AIService_complete rt0 (req0\<lparr>stream := Some True\<rparr>) opts0 (program_with cx_openai)),
        (snd (AIService_complete rt0 (req0\<lparr>stream := Some True\<rparr>) opts0 (program_with cx_openai)))
           \<lparr>responseCache := (\<lambda>k. Some \<lparr>response = canned, timestamp = 0\<rparr>)\<rparr>)"
proof -
  let ?P = "program_with cx_openai"
  let ?S1 = "snd (AIService_complete rt0 req0 opts0 ?P)"
  let ?S2 = "?S1\<lparr>world := (200000, 1)\<rparr>"
  note inst = cached_response_served_within_ttl[where ?opts1.0 = opts0 and ?req1.0 = req0
      and ?opts2.0 = "opts0\<lparr>CompleteOptions.projectId := None\<rparr>"
      and ?req2.0 = "req0\<lparr>stream := Some False\<rparr>" and rt = rt0 and s = ?P and r = canned
      and ?s1.0 = ?S1 and req = "req0\<lparr>stream := Some True\<rparr>" and rt_b = rt0 and opts = opts0
      and s_b = ?P and c = "\<lambda>k. Some \<lparr>response = canned, timestamp = 0\<rparr>"]
  have first: "AIService_complete rt0 req0 opts0 ?P = (Inr canned, ?S1)"
    by (simp add: eval_defs attempts.simps)
  have stored: "responseCache ?S1 (getCacheKey rt0 req0) = Some \<lparr>response = canned, timestamp = 50\<rparr>"
    by (simp add: eval_defs attempts.simps)
  have flags: "useCache opts0 \<noteq> Some False" "stream req0 \<noteq> Some True"
      "useCache (opts0\<lparr>CompleteOptions.projectId := None\<rparr>) \<noteq> Some False"
      "stream (req0\<lparr>stream := Some False\<rparr>) \<noteq> Some True"
    by (simp_all add: opts0_def req0_def)
  from inst first flags obtain e where
      e: "responseCache ?S1 (getCacheKey rt0 req0) = Some e"
      and hit: "\<forall>s2. providers s2 = providers ?S1
                    \<and> responseCache s2 (getCacheKey rt0 req0) = Some e
                    \<and> clock rt0 (world s2) - timestamp e < CACHE_TTL_MS
                  \<longrightarrow> AIService_complete rt0 (req0\<lparr>stream := Some False\<rparr>)
                        (opts0\<lparr>CompleteOptions.projectId := None\<rparr>) s2
                       = (Inr (canned\<lparr>cached := Some True\<rparr>), s2)"
    by auto
  have ts: "timestamp e = 50" using e stored by auto
  have "clock rt0 (world ?S2) - timestamp e < CACHE_TTL_MS"
    using ts by (simp add: rt0_def CACHE_TTL_MS_def)
  then have second: "AIService_complete rt0 (req0\<lparr>stream := Some False\<rparr>)
        (opts0\<lparr>CompleteOptions.projectId := None\<rparr>) ?S2
     = (Inr (canned\<lparr>cached := Some True\<rparr>), ?S2)"
    using hit[rule_format, of ?S2] e by simp
  have str: "stream (req0\<lparr>stream := Some True\<rparr>) = Some True" by simp
  show ?thesis
    using first stored second str inst by simp
qed

end
